theory Spec2Isabelle
  imports Main "HOL-Library.Word"
begin

section \<open>Python values, errors and strings\<close>

text \<open>
  The module \<^verbatim>\<open>newspaper_receipe.py\<close> is a chain of pandas transformations. An exception
  that leaves a function is a value \<open>Inl e\<close> of the result type \<open>py_error + 'a\<close>.
  Text is modelled over the code points 0..255, one \<open>char\<close> per code point.
\<close>

datatype py_error = KeyError | AttributeError | TypeError | ValueError | IndexError

text \<open>A cell of a table: the missing value, a text, or a number.\<close>

datatype cell = NaN | Str string | Numeric int

fun is_text :: "cell \<Rightarrow> bool" where
  "is_text (Str s) = True"
| "is_text _ = False"

text \<open>The text of a text cell (empty for the other cells).\<close>

fun text_of :: "cell \<Rightarrow> string" where
  "text_of (Str s) = s"
| "text_of _ = []"

text \<open>\<^verbatim>\<open>s.split(sep)\<close> for a separator of one character: never the empty list.\<close>

fun split_char :: "char \<Rightarrow> string \<Rightarrow> string list" where
  "split_char sep [] = [[]]"
| "split_char sep (c # cs) =
     (if c = sep then [] # split_char sep cs
      else (case split_char sep cs of
              w # ws \<Rightarrow> (c # w) # ws
            | [] \<Rightarrow> [[c]]))"

text \<open>\<^verbatim>\<open>xs[0]\<close>: IndexError on the empty list.\<close>

definition subscript0 :: "'a list \<Rightarrow> py_error + 'a" where
  "subscript0 xs = (case xs of [] \<Rightarrow> Inl IndexError | x # _ \<Rightarrow> Inr x)"

text \<open>\<^verbatim>\<open>sep.join(words)\<close>.\<close>

fun py_join :: "string \<Rightarrow> string list \<Rightarrow> string" where
  "py_join sep [] = []"
| "py_join sep [w] = w"
| "py_join sep (w # ws) = w @ sep @ py_join sep ws"

text \<open>\<^verbatim>\<open>s.replace(old, new)\<close> for \<open>old\<close> of one character.\<close>

definition replace_char :: "char \<Rightarrow> string \<Rightarrow> string \<Rightarrow> string" where
  "replace_char old new s = concat (map (\<lambda>c. if c = old then new else [c]) s)"

definition newline :: char where
  "newline = CHR 0x0A"

text \<open>\<^verbatim>\<open>list(body)\<close>: the one-character strings of a text; a float or an int is not iterable.\<close>

fun py_list :: "cell \<Rightarrow> py_error + string list" where
  "py_list (Str s) = Inr (map (\<lambda>c. [c]) s)"
| "py_list _ = Inl TypeError"

text \<open>
  \<^verbatim>\<open>str.isalpha\<close> and \<^verbatim>\<open>str.lower\<close> on the code points 0..255: the letters are A-Z, a-z,
  U+00AA, U+00B5, U+00BA, U+00C0-U+00D6, U+00D8-U+00F6 and U+00F8-U+00FF; the upper-case
  ones are A-Z, U+00C0-U+00D6 and U+00D8-U+00DE, each 32 below its lower-case letter.
\<close>

definition isalpha_char :: "char \<Rightarrow> bool" where
  "isalpha_char c =
     (let n = (of_char c :: nat)
      in (65 \<le> n \<and> n \<le> 90) \<or> (97 \<le> n \<and> n \<le> 122) \<or> n = 170 \<or> n = 181 \<or> n = 186
         \<or> (192 \<le> n \<and> n \<le> 214) \<or> (216 \<le> n \<and> n \<le> 246) \<or> (248 \<le> n \<and> n \<le> 255))"

definition isalpha :: "string \<Rightarrow> bool" where
  "isalpha s = (s \<noteq> [] \<and> list_all isalpha_char s)"

definition lower_char :: "char \<Rightarrow> char" where
  "lower_char c =
     (let n = (of_char c :: nat)
      in if (65 \<le> n \<and> n \<le> 90) \<or> (192 \<le> n \<and> n \<le> 214) \<or> (216 \<le> n \<and> n \<le> 222)
         then char_of (n + 32) else c)"

definition lower :: "string \<Rightarrow> string" where
  "lower s = map lower_char s"

text \<open>\<^verbatim>\<open>s.encode()\<close>: UTF-8, one byte below U+0080 and two bytes from there to U+00FF.\<close>

type_synonym byte = "8 word"

definition encode_char :: "char \<Rightarrow> byte list" where
  "encode_char c =
     (let n = (of_char c :: nat)
      in if n < 128 then [of_nat n] else [of_nat (192 + n div 64), of_nat (128 + n mod 64)])"

definition encode :: "string \<Rightarrow> byte list" where
  "encode s = concat (map encode_char s)"

text \<open>
  \<^verbatim>\<open>re.search(r'([^/]+)$', s)\<close>: the start positions are tried from the left; at a start
  the greedy run of characters other than \<open>/\<close> matches only if it reaches the end of the
  text, so the first match is the first non-empty suffix without \<open>/\<close>.
\<close>

fun search_last_segment :: "string \<Rightarrow> string option" where
  "search_last_segment [] = None"
| "search_last_segment (c # cs) =
     (if CHR ''/'' \<notin> set (c # cs) then Some (c # cs) else search_last_segment cs)"

text \<open>\<^verbatim>\<open>Series.str.extract\<close> on one element: the group, or NaN where nothing matches
  or the element is not a text.\<close>

fun str_extract :: "cell \<Rightarrow> cell" where
  "str_extract (Str s) = (case search_last_segment s of None \<Rightarrow> NaN | Some seg \<Rightarrow> Str seg)"
| "str_extract _ = NaN"

section \<open>Tables\<close>

text \<open>
  A DataFrame is its list of column names and its rows in order, each with its index
  label. A row gives every column name a cell; only the cells of the listed columns
  belong to the frame. A Series is a list of labelled values.
\<close>

type_synonym row = "string \<Rightarrow> cell"

type_synonym 'a series = "(cell \<times> 'a) list"

record dataframe =
  columns :: "string list"
  entries :: "(cell \<times> row) list"

definition labels :: "dataframe \<Rightarrow> cell list" where
  "labels df = map fst (entries df)"

definition column_values :: "string \<Rightarrow> dataframe \<Rightarrow> cell list" where
  "column_values c df = map (\<lambda>(l, r). r c) (entries df)"

text \<open>\<^verbatim>\<open>df[c]\<close> and, inside a row-wise apply, \<^verbatim>\<open>row[c]\<close>: KeyError for a name that is
  not a column.\<close>

definition getitem :: "dataframe \<Rightarrow> string \<Rightarrow> py_error + cell series" where
  "getitem df c =
     (if c \<in> set (columns df) then Inr (map (\<lambda>(l, r). (l, r c)) (entries df))
      else Inl KeyError)"

definition row_getitem :: "string list \<Rightarrow> row \<Rightarrow> string \<Rightarrow> py_error + cell" where
  "row_getitem cols r c = (if c \<in> set cols then Inr (r c) else Inl KeyError)"

text \<open>A new column goes last; an existing one keeps its place.\<close>

definition add_column :: "string \<Rightarrow> string list \<Rightarrow> string list" where
  "add_column c cols = (if c \<in> set cols then cols else cols @ [c])"

text \<open>\<^verbatim>\<open>df[c] = value\<close> for a scalar: every row gets the value.\<close>

definition setitem_scalar :: "dataframe \<Rightarrow> string \<Rightarrow> cell \<Rightarrow> dataframe" where
  "setitem_scalar df c v =
     \<lparr>columns = add_column c (columns df),
      entries = map (\<lambda>(l, r). (l, r(c := v))) (entries df)\<rparr>"

text \<open>
  \<^verbatim>\<open>df[c] = series\<close>: pandas takes the values as they stand when the index of the
  series equals the index of the frame; otherwise it reindexes the series to the frame's
  labels, which raises ValueError when the series has a label twice and gives NaN to
  every label of the frame that the series lacks.
\<close>

definition reindex_values :: "cell series \<Rightarrow> cell list \<Rightarrow> py_error + cell list" where
  "reindex_values s ls =
     (if map fst s = ls then Inr (map snd s)
      else if \<not> distinct (map fst s) then Inl ValueError
      else Inr (map (\<lambda>l. case map_of s l of Some v \<Rightarrow> v | None \<Rightarrow> NaN) ls))"

definition setitem :: "dataframe \<Rightarrow> string \<Rightarrow> cell series \<Rightarrow> py_error + dataframe" where
  "setitem df c s =
     (case reindex_values s (labels df) of
        Inl e \<Rightarrow> Inl e
      | Inr vs \<Rightarrow>
          Inr \<lparr>columns = add_column c (columns df),
               entries = map (\<lambda>((l, r), v). (l, r(c := v))) (zip (entries df) vs)\<rparr>)"

text \<open>\<^verbatim>\<open>Series.apply(f)\<close> and \<^verbatim>\<open>DataFrame.applymap(f)\<close> on one column: \<open>f\<close> on every
  value in order, NaN included; the first exception ends the call.\<close>

fun series_apply :: "('a \<Rightarrow> py_error + 'b) \<Rightarrow> 'a series \<Rightarrow> py_error + 'b series" where
  "series_apply f [] = Inr []"
| "series_apply f ((l, v) # s) =
     (case f v of
        Inl e \<Rightarrow> Inl e
      | Inr w \<Rightarrow> (case series_apply f s of Inl e \<Rightarrow> Inl e | Inr t \<Rightarrow> Inr ((l, w) # t)))"

text \<open>The same for a function that raises nothing.\<close>

definition series_map :: "('a \<Rightarrow> 'b) \<Rightarrow> 'a series \<Rightarrow> 'b series" where
  "series_map f s = map (\<lambda>(l, v). (l, f v)) s"

text \<open>
  \<^verbatim>\<open>df.apply(f, axis=1)\<close>: \<open>f\<close> on every row, giving a Series on the frame's index. On a
  frame without rows pandas calls \<open>f\<close> once on a row of NaN to see what it returns: when
  \<open>f\<close> returns a value, the result is the empty Series; when \<open>f\<close> raises, pandas hands
  back a frame instead of a Series, on which the calls chained in this module fail, and
  the model reports that failure here.
\<close>

definition apply_axis1 :: "(row \<Rightarrow> py_error + 'a) \<Rightarrow> dataframe \<Rightarrow> py_error + 'a series" where
  "apply_axis1 f df =
     (if entries df = []
      then (case f (\<lambda>c. NaN) of Inl e \<Rightarrow> Inl ValueError | Inr v \<Rightarrow> Inr [])
      else series_apply f (entries df))"

text \<open>\<^verbatim>\<open>df.dropna()\<close>: a copy without the rows that have NaN in any column.\<close>

definition row_complete :: "string list \<Rightarrow> row \<Rightarrow> bool" where
  "row_complete cols r = list_all (\<lambda>c. r c \<noteq> NaN) cols"

definition dropna :: "dataframe \<Rightarrow> dataframe" where
  "dropna df = df\<lparr>entries := filter (\<lambda>(l, r). row_complete (columns df) r) (entries df)\<rparr>"

text \<open>\<^verbatim>\<open>df[mask]\<close>: the rows where the mask holds.\<close>

definition boolean_index :: "dataframe \<Rightarrow> bool list \<Rightarrow> dataframe" where
  "boolean_index df bmask = df\<lparr>entries := map fst (filter snd (zip (entries df) bmask))\<rparr>"

text \<open>
  \<^verbatim>\<open>df.loc[mask, c] = series\<close> for a series on the masked rows' own index: its values go
  to the masked rows in order.
\<close>

fun assign_where :: "bool list \<Rightarrow> (cell \<times> row) list \<Rightarrow> string \<Rightarrow> cell list \<Rightarrow> (cell \<times> row) list" where
  "assign_where (True # ms) ((l, r) # es) c (v # vs) = (l, r(c := v)) # assign_where ms es c vs"
| "assign_where (False # ms) (e # es) c vs = e # assign_where ms es c vs"
| "assign_where ms es c vs = es"

definition loc_setitem :: "dataframe \<Rightarrow> bool list \<Rightarrow> string \<Rightarrow> cell series \<Rightarrow> dataframe" where
  "loc_setitem df bmask c s = df\<lparr>entries := assign_where bmask (entries df) c (map snd s)\<rparr>"

text \<open>\<^verbatim>\<open>df.set_index(c)\<close>: the column becomes the index and leaves the columns.\<close>

definition set_index :: "dataframe \<Rightarrow> string \<Rightarrow> py_error + dataframe" where
  "set_index df c =
     (if c \<in> set (columns df)
      then Inr \<lparr>columns = removeAll c (columns df),
                entries = map (\<lambda>(l, r). (r c, r(c := NaN))) (entries df)\<rparr>
      else Inl KeyError)"

text \<open>
  The \<^verbatim>\<open>.str\<close> accessor needs a column of texts: a column read from a file with rows but
  no text in it is numeric, and the accessor raises AttributeError on it.
\<close>

definition str_accessor :: "cell list \<Rightarrow> bool" where
  "str_accessor vs = (vs = [] \<or> list_ex is_text vs)"

section \<open>The module\<close>

text \<open>\<^verbatim>\<open>_extract_newspaper_uid\<close>: \<^verbatim>\<open>filename.split('_')[0]\<close>.\<close>

definition extract_newspaper_uid :: "string \<Rightarrow> py_error + string" where
  "extract_newspaper_uid filename = subscript0 (split_char CHR ''_'' filename)"

text \<open>\<^verbatim>\<open>_add_newspaper_uid_column\<close>: \<^verbatim>\<open>df['newspaper_uid'] = newspaper_uid\<close>.\<close>

definition add_newspaper_uid_column :: "dataframe \<Rightarrow> string \<Rightarrow> dataframe" where
  "add_newspaper_uid_column df newspaper_uid =
     setitem_scalar df ''newspaper_uid'' (Str newspaper_uid)"

text \<open>
  \<^verbatim>\<open>_extract_host\<close>: \<^verbatim>\<open>df['host'] = df['uri'].apply(lambda uri: urlparse(uri).netloc)\<close>.
  The parser is the standard library's; \<open>netloc\<close> stands for \<^verbatim>\<open>urlparse(uri).netloc\<close> on a
  text. On a float or an int \<^verbatim>\<open>urlparse\<close> raises AttributeError (they have no
  \<^verbatim>\<open>decode\<close>; the model raises for the number 0 too, where the library answers bytes).
\<close>

definition extract_host :: "(string \<Rightarrow> py_error + string) \<Rightarrow> dataframe \<Rightarrow> py_error + dataframe" where
  "extract_host netloc df =
     (case getitem df ''uri'' of
        Inl e \<Rightarrow> Inl e
      | Inr uris \<Rightarrow>
          (case series_apply
                  (\<lambda>uri. case uri of
                           Str u \<Rightarrow> (case netloc u of Inl e \<Rightarrow> Inl e | Inr h \<Rightarrow> Inr (Str h))
                         | _ \<Rightarrow> Inl AttributeError)
                  uris of
             Inl e \<Rightarrow> Inl e
           | Inr hosts \<Rightarrow> setitem df ''host'' hosts))"

text \<open>
  \<^verbatim>\<open>_fill_nan_data\<close>. \<^verbatim>\<open>applymap\<close> calls its function on NaN too, and a float has no
  \<^verbatim>\<open>split\<close>: AttributeError.
\<close>

definition fill_nan_data :: "dataframe \<Rightarrow> py_error + dataframe" where
  "fill_nan_data df =
     (case getitem df ''title'' of
        Inl e \<Rightarrow> Inl e
      | Inr titles \<Rightarrow>
          (let missing_titles_mask = map (\<lambda>(l, v). v = NaN) titles
           in case getitem (boolean_index df missing_titles_mask) ''uri'' of
                Inl e \<Rightarrow> Inl e
              | Inr uris \<Rightarrow>
                  if \<not> str_accessor (column_values ''uri'' df) then Inl AttributeError
                  else
                    (case series_apply
                            (\<lambda>title. case title of
                                       Str s \<Rightarrow> Inr (split_char CHR ''-'' s)
                                     | _ \<Rightarrow> Inl AttributeError)
                            (series_map str_extract uris) of
                       Inl e \<Rightarrow> Inl e
                     | Inr title_word_lists \<Rightarrow>
                         Inr (loc_setitem df missing_titles_mask ''title''
                                (series_map (\<lambda>title_word_list. Str (py_join '' '' title_word_list))
                                   title_word_lists)))))"

text \<open>
  \<^verbatim>\<open>_generate_uids_for_rows\<close>. The hash object is modelled by the bytes it was fed;
  \<open>md5_hexdigest\<close> stands for \<^verbatim>\<open>hashlib.md5(bytes).hexdigest()\<close>. A float or an int has no
  \<^verbatim>\<open>encode\<close>: AttributeError.
\<close>

definition generate_uids_for_rows :: "(byte list \<Rightarrow> string) \<Rightarrow> dataframe \<Rightarrow> py_error + dataframe" where
  "generate_uids_for_rows md5_hexdigest df =
     (case apply_axis1
             (\<lambda>row. case row_getitem (columns df) row ''uri'' of
                      Inl e \<Rightarrow> Inl e
                    | Inr (Str u) \<Rightarrow> Inr (encode u)
                    | Inr _ \<Rightarrow> Inl AttributeError)
             df of
        Inl e \<Rightarrow> Inl e
      | Inr hash_objects \<Rightarrow>
          (case setitem df ''uid'' (series_map (\<lambda>hash_object. Str (md5_hexdigest hash_object)) hash_objects) of
             Inl e \<Rightarrow> Inl e
           | Inr df' \<Rightarrow> set_index df' ''uid''))"

text \<open>\<^verbatim>\<open>_remove_new_lines_from_body\<close>.\<close>

definition remove_new_lines_from_body :: "dataframe \<Rightarrow> py_error + dataframe" where
  "remove_new_lines_from_body df =
     (case apply_axis1 (\<lambda>row. row_getitem (columns df) row ''body'') df of
        Inl e \<Rightarrow> Inl e
      | Inr bodies \<Rightarrow>
          (case series_apply py_list bodies of
             Inl e \<Rightarrow> Inl e
           | Inr letters \<Rightarrow>
               setitem df ''body''
                 (series_map (\<lambda>letters. Str (concat letters))
                    (series_map (map (\<lambda>letter. replace_char newline [] letter)) letters))))"

text \<open>
  \<^verbatim>\<open>_tokenize_column\<close>. \<open>word_tokenize\<close> stands for \<^verbatim>\<open>nltk.word_tokenize\<close> on a text and
  \<open>stop_words\<close> for the module's stopword set; the tokenizer raises TypeError on a value
  that is not a text.
\<close>

definition tokenize_column ::
  "(string \<Rightarrow> string list) \<Rightarrow> string set \<Rightarrow> dataframe \<Rightarrow> string \<Rightarrow> py_error + dataframe" where
  "tokenize_column word_tokenize stop_words df column_name =
     (case apply_axis1
             (\<lambda>row. case row_getitem (columns df) row column_name of
                      Inl e \<Rightarrow> Inl e
                    | Inr (Str s) \<Rightarrow> Inr (word_tokenize s)
                    | Inr _ \<Rightarrow> Inl TypeError)
             (dropna df) of
        Inl e \<Rightarrow> Inl e
      | Inr tokens \<Rightarrow>
          setitem df (''n_tokens_'' @ column_name)
            (series_map (\<lambda>valid_words. Numeric (int (length valid_words)))
               (series_map (filter (\<lambda>word. word \<notin> stop_words))
                  (series_map (map lower)
                     (series_map (filter isalpha) tokens)))))"

text \<open>\<^verbatim>\<open>main\<close>; \<open>read_csv\<close> stands for \<^verbatim>\<open>pd.read_csv\<close>.\<close>

definition read_data :: "(string \<Rightarrow> py_error + dataframe) \<Rightarrow> string \<Rightarrow> py_error + dataframe" where
  "read_data read_csv filename = read_csv filename"

definition and_then :: "py_error + 'a \<Rightarrow> ('a \<Rightarrow> py_error + 'b) \<Rightarrow> py_error + 'b" where
  "and_then m f = (case m of Inl e \<Rightarrow> Inl e | Inr x \<Rightarrow> f x)"

definition main ::
  "(string \<Rightarrow> py_error + dataframe) \<Rightarrow> (string \<Rightarrow> py_error + string) \<Rightarrow> (byte list \<Rightarrow> string) \<Rightarrow>
   (string \<Rightarrow> string list) \<Rightarrow> string set \<Rightarrow> string \<Rightarrow> py_error + dataframe" where
  "main read_csv netloc md5_hexdigest word_tokenize stop_words filename =
     and_then (read_data read_csv filename) (\<lambda>df0.
     and_then (extract_newspaper_uid filename) (\<lambda>newspaper_uid.
     and_then (Inr (add_newspaper_uid_column df0 newspaper_uid)) (\<lambda>df1.
     and_then (extract_host netloc df1) (\<lambda>df2.
     and_then (fill_nan_data df2) (\<lambda>df3.
     and_then (generate_uids_for_rows md5_hexdigest df3) (\<lambda>df4.
     and_then (remove_new_lines_from_body df4) (\<lambda>df5.
     and_then (tokenize_column word_tokenize stop_words df5 ''title'') (\<lambda>df6.
     tokenize_column word_tokenize stop_words df6 ''body''))))))))"

section \<open>The standard library's URL parser, and stand-ins for the examples\<close>

text \<open>
  \<^verbatim>\<open>urllib.parse.urlparse(url).netloc\<close> on a text, after CPython 3.9 (later versions also
  strip leading blanks, want a letter first in the scheme and check what stands between
  brackets; the theorems take the parser as a parameter): tabs and line ends
  are dropped; what stands before the first colon is split off as the scheme when it is
  not empty and made of letters, digits, \<open>+\<close>, \<open>-\<close> and \<open>.\<close>; if the rest starts with \<open>//\<close>,
  the network location runs from there to the first \<open>/\<close>, \<open>?\<close> or \<open>#\<close>, and a bracket
  without its partner in it raises ValueError ("Invalid IPv6 URL"); otherwise the network
  location is empty.
\<close>

definition scheme_char :: "char \<Rightarrow> bool" where
  "scheme_char c =
     (let n = (of_char c :: nat)
      in (65 \<le> n \<and> n \<le> 90) \<or> (97 \<le> n \<and> n \<le> 122) \<or> (48 \<le> n \<and> n \<le> 57)
         \<or> c = CHR ''+'' \<or> c = CHR ''-'' \<or> c = CHR ''.'')"

definition urlparse_netloc :: "string \<Rightarrow> py_error + string" where
  "urlparse_netloc url0 =
     (let url = filter (\<lambda>c. c \<noteq> CHR 0x09 \<and> c \<noteq> CHR 0x0D \<and> c \<noteq> CHR 0x0A) url0;
          before = takeWhile (\<lambda>c. c \<noteq> CHR '':'') url;
          rest = (if before \<noteq> [] \<and> length before < length url \<and> list_all scheme_char before
                  then drop (length before + 1) url else url)
      in if take 2 rest = ''//''
         then (let netloc = takeWhile (\<lambda>c. c \<noteq> CHR ''/'' \<and> c \<noteq> CHR ''?'' \<and> c \<noteq> CHR ''#'') (drop 2 rest)
               in if (CHR ''['' \<in> set netloc \<and> CHR '']'' \<notin> set netloc)
                     \<or> (CHR '']'' \<in> set netloc \<and> CHR ''['' \<notin> set netloc)
                  then Inl ValueError
                  else Inr netloc)
         else Inr [])"

text \<open>
  The tokenizer and the digest are parameters of the model. The examples below need
  functions that compute: a tokenizer that splits at spaces, and a digest that writes
  every byte as two hexadecimal digits.
\<close>

definition space_tokenize :: "string \<Rightarrow> string list" where
  "space_tokenize s = filter (\<lambda>w. w \<noteq> []) (split_char CHR '' '' s)"

definition hex_digit :: "nat \<Rightarrow> char" where
  "hex_digit n = ''0123456789abcdef'' ! n"

definition hex_digest :: "byte list \<Rightarrow> string" where
  "hex_digest bs = concat (map (\<lambda>b. [hex_digit (unat b div 16), hex_digit (unat b mod 16)]) bs)"

section \<open>Names for the parts of a stage\<close>

text \<open>
  The functions that the stages apply to a cell or a row (the lambdas of the module), and
  the predicates in which the theorems below are stated.
\<close>

text \<open>The lambda of \<^verbatim>\<open>_extract_host\<close>.\<close>

definition host_of :: "(string \<Rightarrow> py_error + string) \<Rightarrow> cell \<Rightarrow> py_error + cell" where
  "host_of netloc uri =
     (case uri of
        Str u \<Rightarrow> (case netloc u of Inl e \<Rightarrow> Inl e | Inr h \<Rightarrow> Inr (Str h))
      | _ \<Rightarrow> Inl AttributeError)"

text \<open>The first \<^verbatim>\<open>applymap\<close> lambda of \<^verbatim>\<open>_fill_nan_data\<close>, and the mask \<^verbatim>\<open>df['title'].isna()\<close> on one row.\<close>

definition title_words :: "cell \<Rightarrow> py_error + string list" where
  "title_words title =
     (case title of
        Str s \<Rightarrow> Inr (split_char CHR ''-'' s)
      | _ \<Rightarrow> Inl AttributeError)"

definition title_missing :: "row \<Rightarrow> bool" where
  "title_missing r = (r ''title'' = NaN)"

text \<open>A uri cell with a final segment: a text that is not empty and does not end in \<open>/\<close>.\<close>

definition has_last_segment :: "cell \<Rightarrow> bool" where
  "has_last_segment v = (is_text v \<and> text_of v \<noteq> [] \<and> last (text_of v) \<noteq> CHR ''/'')"

text \<open>The title that \<^verbatim>\<open>_fill_nan_data\<close> derives from a uri: what follows the last \<open>/\<close>,
  with a space for every \<open>-\<close>.\<close>

definition slug_title :: "string \<Rightarrow> string" where
  "slug_title u =
     map (\<lambda>c. if c = CHR ''-'' then CHR '' '' else c) (rev (takeWhile (\<lambda>c. c \<noteq> CHR ''/'') (rev u)))"

text \<open>The first lambda of \<^verbatim>\<open>_generate_uids_for_rows\<close>.\<close>

definition hash_of_row :: "string list \<Rightarrow> row \<Rightarrow> py_error + byte list" where
  "hash_of_row cols r =
     (case row_getitem cols r ''uri'' of
        Inl e \<Rightarrow> Inl e
      | Inr (Str u) \<Rightarrow> Inr (encode u)
      | Inr _ \<Rightarrow> Inl AttributeError)"

text \<open>The first lambda of \<^verbatim>\<open>_tokenize_column\<close> on the target cell (\<open>is_column\<close>: the target is
  a column of the table), and the four lambdas after it in one.\<close>

definition cell_tokens :: "(string \<Rightarrow> string list) \<Rightarrow> bool \<Rightarrow> cell \<Rightarrow> py_error + string list" where
  "cell_tokens word_tokenize is_column v =
     (if is_column then (case v of Str s \<Rightarrow> Inr (word_tokenize s) | _ \<Rightarrow> Inl TypeError)
      else Inl KeyError)"

definition count_cell :: "string set \<Rightarrow> string list \<Rightarrow> cell" where
  "count_cell stop_words tokens =
     Numeric (int (length (filter (\<lambda>word. word \<notin> stop_words) (map lower (filter isalpha tokens)))))"

text \<open>The number that \<^verbatim>\<open>_tokenize_column\<close> computes from one text: the tokens that are
  alphabetic, in lower case, and no stopword.\<close>

definition valid_word_count :: "(string \<Rightarrow> string list) \<Rightarrow> string set \<Rightarrow> string \<Rightarrow> int" where
  "valid_word_count word_tokenize stop_words s =
     int (length (filter (\<lambda>word. word \<notin> stop_words) (map lower (filter isalpha (word_tokenize s)))))"

text \<open>The rows of \<^verbatim>\<open>df.dropna()\<close>.\<close>

definition complete_rows :: "dataframe \<Rightarrow> (cell \<times> row) list" where
  "complete_rows df = filter (\<lambda>(l, r). row_complete (columns df) r) (entries df)"

text \<open>Two rows have their missing cells in the same columns.\<close>

definition same_missing :: "string list \<Rightarrow> row \<Rightarrow> row \<Rightarrow> bool" where
  "same_missing cols r1 r2 = list_all (\<lambda>d. (r1 d = NaN) = (r2 d = NaN)) cols"

text \<open>Two tables have the same columns and labels, the same cells in column \<open>c\<close>, and
  their missing cells in the same places.\<close>

definition agree_on :: "string \<Rightarrow> dataframe \<Rightarrow> dataframe \<Rightarrow> bool" where
  "agree_on c df1 df2 =
     (columns df1 = columns df2
      \<and> list_all2 (\<lambda>(l1, r1) (l2, r2). l1 = l2 \<and> r1 c = r2 c \<and> same_missing (columns df1) r1 r2)
           (entries df1) (entries df2))"

text \<open>Lines 26 and 27 of \<^verbatim>\<open>main\<close>: the tokenizer on \<open>title\<close>, then on \<open>body\<close>.\<close>

definition tokenize_title_then_body ::
  "(string \<Rightarrow> string list) \<Rightarrow> string set \<Rightarrow> dataframe \<Rightarrow> py_error + dataframe" where
  "tokenize_title_then_body word_tokenize stop_words df5 =
     and_then (tokenize_column word_tokenize stop_words df5 ''title'') (\<lambda>df6.
     tokenize_column word_tokenize stop_words df6 ''body'')"

section \<open>Example tables\<close>

definition example_bodies :: dataframe where
  "example_bodies =
     \<lparr>columns = [''uri'', ''body''],
      entries = [(Numeric 0, (\<lambda>c. NaN)(''uri'' := Str ''http://example.com/a'',
                                         ''body'' := Str (''Hello'' @ [newline] @ ''World''))),
                 (Numeric 1, (\<lambda>c. NaN)(''uri'' := Str ''http://example.com/b'', ''body'' := Str []))]\<rparr>"

definition example_hosts :: dataframe where
  "example_hosts =
     \<lparr>columns = [''uri''],
      entries = [(Numeric 0, (\<lambda>c. NaN)(''uri'' := Str ''http://example.com/news/big-story-today'')),
                 (Numeric 1, (\<lambda>c. NaN)(''uri'' := Str ''not a url''))]\<rparr>"

definition example_bad_uri :: dataframe where
  "example_bad_uri =
     \<lparr>columns = [''uri''],
      entries = [(Numeric 0, (\<lambda>c. NaN)(''uri'' := Str ''http://example.com/a'')),
                 (Numeric 1, (\<lambda>c. NaN)(''uri'' := Str ''http://[bad/page''))]\<rparr>"

definition example_uris :: dataframe where
  "example_uris =
     \<lparr>columns = [''uri'', ''title''],
      entries = [(Numeric 0, (\<lambda>c. NaN)(''uri'' := Str ''ab'', ''title'' := Str ''x'')),
                 (Numeric 1, (\<lambda>c. NaN)(''uri'' := Str ''a/c'', ''title'' := Str ''y'')),
                 (Numeric 2, (\<lambda>c. NaN)(''uri'' := Str ''ab'', ''title'' := Str ''z''))]\<rparr>"

definition example_titles :: dataframe where
  "example_titles =
     \<lparr>columns = [''uri'', ''title''],
      entries = [(Numeric 0, (\<lambda>c. NaN)(''uri'' := Str ''http://example.com/news/big-story-today'')),
                 (Numeric 1, (\<lambda>c. NaN)(''uri'' := Str ''http://example.com/x-y'',
                                         ''title'' := Str ''Given title''))]\<rparr>"

definition example_trailing_slash :: dataframe where
  "example_trailing_slash =
     \<lparr>columns = [''uri'', ''title''],
      entries = [(Numeric 0, (\<lambda>c. NaN)(''uri'' := Str ''http://example.com/news/'')),
                 (Numeric 1, (\<lambda>c. NaN)(''uri'' := Str ''http://example.com/x-y'',
                                         ''title'' := Str ''Given title''))]\<rparr>"

definition example_missing_title :: dataframe where
  "example_missing_title =
     \<lparr>columns = [''title'', ''body''],
      entries = [(Str ''a'', (\<lambda>c. NaN)(''title'' := Str ''hola'', ''body'' := Str ''el gato come pescado'')),
                 (Str ''b'', (\<lambda>c. NaN)(''body'' := Str ''el perro ladra''))]\<rparr>"

definition example_both_titles :: dataframe where
  "example_both_titles =
     \<lparr>columns = [''title'', ''body''],
      entries = [(Str ''a'', (\<lambda>c. NaN)(''title'' := Str ''hola'', ''body'' := Str ''el gato come pescado'')),
                 (Str ''b'', (\<lambda>c. NaN)(''title'' := Str ''adios amigos'', ''body'' := Str ''el perro ladra''))]\<rparr>"

definition example_other_titles :: dataframe where
  "example_other_titles =
     \<lparr>columns = [''title'', ''body''],
      entries = [(Str ''a'', (\<lambda>c. NaN)(''title'' := Str ''el gato'', ''body'' := Str ''el gato come pescado'')),
                 (Str ''b'', (\<lambda>c. NaN)(''title'' := Str ''perro'', ''body'' := Str ''el perro ladra''))]\<rparr>"

definition example_input :: dataframe where
  "example_input =
     \<lparr>columns = [''uri'', ''title'', ''body'', ''date''],
      entries = [(Numeric 0, (\<lambda>c. NaN)(''uri'' := Str ''http://example.com/news/big-story-today'',
                                         ''body'' := Str (''hello'' @ [newline] @ ''world''),
                                         ''date'' := Str ''2021-05-01'')),
                 (Numeric 1, (\<lambda>c. NaN)(''uri'' := Str ''http://example.com/news/otra-cosa'',
                                         ''title'' := Str ''el gato'',
                                         ''body'' := Str ''el perro ladra''))]\<rparr>"

definition example_slug_and_slash :: dataframe where
  "example_slug_and_slash =
     \<lparr>columns = [''uri'', ''title''],
      entries = [(Numeric 0, (\<lambda>c. NaN)(''uri'' := Str ''http://example.com/news/'')),
                 (Numeric 1, (\<lambda>c. NaN)(''uri'' := Str ''http://example.com/news/a-b-c''))]\<rparr>"

definition example_shared_uri :: dataframe where
  "example_shared_uri =
     \<lparr>columns = [''uri'', ''title'', ''body'', ''date''],
      entries = [(Numeric 0, (\<lambda>c. NaN)(''uri'' := Str ''http://example.com/a-b'',
                                         ''title'' := Str ''el gato'',
                                         ''body'' := Str ''el perro ladra'',
                                         ''date'' := Str ''2021-05-01'')),
                 (Numeric 1, (\<lambda>c. NaN)(''uri'' := Str ''http://example.com/a-b'',
                                         ''title'' := Str ''otro titulo'',
                                         ''body'' := Str ''otra cosa muy distinta''))]\<rparr>"

section \<open>Strings: what the Python calls compute\<close>

lemma split_char_not_Nil: "split_char sep s \<noteq> []"
  by (induction s) (auto split: list.splits)

lemma subscript0_split_char:
  "subscript0 (split_char sep s) = Inr (takeWhile (\<lambda>c. c \<noteq> sep) s)"
proof (induction s)
  case Nil
  show ?case by (simp add: subscript0_def)
next
  case (Cons c cs)
  obtain w ws where w: "split_char sep cs = w # ws"
    using split_char_not_Nil [of sep cs] by (cases "split_char sep cs") auto
  with Cons show ?case by (simp add: subscript0_def)
qed

lemma takeWhile_all: "x \<notin> set s \<Longrightarrow> takeWhile (\<lambda>c. c \<noteq> x) s = s"
  by (induction s) auto

lemma takeWhile_prefix: "x \<notin> set pre \<Longrightarrow> takeWhile (\<lambda>c. c \<noteq> x) (pre @ x # post) = pre"
  by (induction pre) auto

lemma join_split_char:
  "py_join [b] (split_char a s) = map (\<lambda>c. if c = a then b else c) s"
proof (induction s)
  case Nil
  show ?case by simp
next
  case (Cons c cs)
  obtain w ws where w: "split_char a cs = w # ws"
    using split_char_not_Nil [of a cs] by (cases "split_char a cs") auto
  show ?case
  proof (cases "c = a")
    case True
    with Cons w show ?thesis by simp
  next
    case False
    with Cons w show ?thesis by (cases ws) auto
  qed
qed

lemma concat_replace_letters:
  "concat (map (\<lambda>letter. replace_char x [] letter) (map (\<lambda>c. [c]) s)) = filter (\<lambda>c. c \<noteq> x) s"
  by (induction s) (auto simp: replace_char_def)

lemma last_segment_rev:
  "search_last_segment s =
     (if rev (takeWhile (\<lambda>c. c \<noteq> CHR ''/'') (rev s)) = [] then None
      else Some (rev (takeWhile (\<lambda>c. c \<noteq> CHR ''/'') (rev s))))"
proof (induction s)
  case Nil
  show ?case by simp
next
  case (Cons c cs)
  let ?P = "\<lambda>c. c \<noteq> CHR ''/''"
  show ?case
  proof (cases "CHR ''/'' \<in> set cs")
    case True
    then have "CHR ''/'' \<in> set (rev cs)" by simp
    then have "takeWhile ?P (rev cs @ [c]) = takeWhile ?P (rev cs)"
      by (rule takeWhile_append1) simp
    with True Cons show ?thesis by simp
  next
    case False
    then have all: "takeWhile ?P (rev cs) = rev cs"
      by (intro takeWhile_all) simp
    have app: "takeWhile ?P (rev cs @ [c]) = rev cs @ takeWhile ?P [c]"
      by (rule takeWhile_append2) (use False in auto)
    have ih: "search_last_segment cs = (if cs = [] then None else Some cs)"
      using Cons.IH by (simp add: all)
    show ?thesis
    proof (cases "c = CHR ''/''")
      case True
      then have t: "takeWhile ?P (rev (c # cs)) = rev cs"
        using app by simp
      have "search_last_segment (c # cs) = search_last_segment cs"
        using True by simp
      then show ?thesis
        unfolding t ih by simp
    next
      case c: False
      then have t: "takeWhile ?P (rev (c # cs)) = rev (c # cs)"
        using app by simp
      have "search_last_segment (c # cs) = Some (c # cs)"
        using c False by simp
      then show ?thesis
        unfolding t by simp
    qed
  qed
qed

lemma search_last_segment_Some:
  "search_last_segment s = Some seg \<Longrightarrow>
     seg \<noteq> [] \<and> CHR ''/'' \<notin> set seg \<and> seg = rev (takeWhile (\<lambda>c. c \<noteq> CHR ''/'') (rev s))"
proof -
  assume a: "search_last_segment s = Some seg"
  let ?t = "takeWhile (\<lambda>c. c \<noteq> CHR ''/'') (rev s)"
  from a have seg: "seg = rev ?t" and ne: "rev ?t \<noteq> []"
    by (simp_all add: last_segment_rev split: if_splits)
  have "\<forall>x \<in> set ?t. x \<noteq> CHR ''/''"
    using set_takeWhileD [of _ "\<lambda>c. c \<noteq> CHR ''/''" "rev s"] by blast
  then have "CHR ''/'' \<notin> set (rev ?t)" by auto
  with seg ne show ?thesis by simp
qed

lemma search_last_segment_None:
  "search_last_segment s = None \<longleftrightarrow> (s = [] \<or> last s = CHR ''/'')"
proof (cases s rule: rev_cases)
  case Nil
  then show ?thesis by simp
next
  case (snoc xs x)
  then show ?thesis by (simp add: last_segment_rev)
qed

section \<open>Series and frames\<close>

lemma series_apply_total:
  "\<forall>(l, v) \<in> set s. f v = Inr (g v) \<Longrightarrow>
     series_apply f s = Inr (map (\<lambda>(l, v). (l, g v)) s)"
  by (induction s) auto

lemma series_apply_InrD:
  "series_apply f s = Inr t \<Longrightarrow>
     t = map (\<lambda>(l, v). (l, projr (f v))) s \<and> (\<forall>(l, v) \<in> set s. f v = Inr (projr (f v)))"
  by (induction f s arbitrary: t rule: series_apply.induct) (auto split: sum.splits)

lemma series_apply_raises:
  "(l, v) \<in> set s \<Longrightarrow> f v = Inl e \<Longrightarrow> \<exists>e'. series_apply f s = Inl e'"
  by (induction f s rule: series_apply.induct) (auto split: sum.splits)

lemma zip_rowwise:
  "map (\<lambda>((l, r), v). (l, r(c := v))) (zip es (map snd (map (\<lambda>(l, r). (l, g r)) es)))
     = map (\<lambda>(l, r). (l, r(c := g r))) es"
  by (induction es) auto

lemma setitem_rowwise:
  "setitem df c (map (\<lambda>(l, r). (l, g r)) (entries df))
     = Inr \<lparr>columns = add_column c (columns df),
            entries = map (\<lambda>(l, r). (l, r(c := g r))) (entries df)\<rparr>"
proof -
  have "map fst (map (\<lambda>(l, r). (l, g r)) (entries df)) = labels df"
    by (simp add: labels_def case_prod_unfold)
  then have "reindex_values (map (\<lambda>(l, r). (l, g r)) (entries df)) (labels df)
               = Inr (map snd (map (\<lambda>(l, r). (l, g r)) (entries df)))"
    unfolding reindex_values_def by simp
  then show ?thesis
    unfolding setitem_def by (simp only: sum.case zip_rowwise)
qed

lemma add_column_member: "c \<in> set cols \<Longrightarrow> add_column c cols = cols"
  by (simp add: add_column_def)

subsection \<open>The body normalizer\<close>

lemma concat_replace_each:
  "concat (map (\<lambda>c. replace_char x [] [c]) s) = filter (\<lambda>c. c \<noteq> x) s"
  by (induction s) (auto simp: replace_char_def)

lemma py_list_text: "is_text v \<Longrightarrow> py_list v = Inr (map (\<lambda>c. [c]) (text_of v))"
  by (cases v) auto

lemma py_list_InrD: "py_list v = Inr x \<Longrightarrow> is_text v"
  by (cases v) auto

lemma apply_axis1_InrD:
  assumes "apply_axis1 f df = Inr t"
  shows "t = map (\<lambda>(l, r). (l, projr (f r))) (entries df)
         \<and> (\<forall>(l, r) \<in> set (entries df). f r = Inr (projr (f r)))"
proof (cases "entries df = []")
  case True
  with assms show ?thesis
    by (auto simp: apply_axis1_def split: sum.splits)
next
  case False
  with assms have "series_apply f (entries df) = Inr t"
    by (simp add: apply_axis1_def)
  then show ?thesis by (rule series_apply_InrD)
qed

lemma apply_axis1_no_rows:
  "apply_axis1 f df = Inr t \<Longrightarrow> isl (f (\<lambda>c. NaN)) \<Longrightarrow> entries df \<noteq> []"
  by (auto simp: apply_axis1_def split: sum.splits)

lemma apply_axis1_total:
  "entries df = [] \<longrightarrow> \<not> isl (f (\<lambda>c. NaN)) \<Longrightarrow>
   \<forall>(l, r) \<in> set (entries df). f r = Inr (g r) \<Longrightarrow>
     apply_axis1 f df = Inr (map (\<lambda>(l, r). (l, g r)) (entries df))"
  by (cases "entries df = []") (auto simp: apply_axis1_def series_apply_total split: sum.splits)

lemma remove_new_lines_from_body_InrD:
  assumes "remove_new_lines_from_body df = Inr df'"
  shows "''body'' \<in> set (columns df)
         \<and> list_all (\<lambda>(l, r). is_text (r ''body'')) (entries df)
         \<and> columns df' = columns df
         \<and> entries df' = map (\<lambda>(l, r). (l, r(''body'' := Str (filter (\<lambda>c. c \<noteq> newline) (text_of (r ''body'')))))) (entries df)"
proof -
  let ?f = "\<lambda>row. row_getitem (columns df) row ''body''"
  have col: "''body'' \<in> set (columns df)"
  proof (rule ccontr)
    assume no: "''body'' \<notin> set (columns df)"
    then have raises: "?f r = Inl KeyError" for r
      by (simp add: row_getitem_def)
    have "isl (apply_axis1 ?f df)"
    proof (cases "entries df")
      case Nil
      then show ?thesis by (simp add: apply_axis1_def raises)
    next
      case (Cons x es)
      obtain l r where "x = (l, r)" by (cases x)
      with Cons have "(l, r) \<in> set (entries df)" by simp
      then obtain e where "series_apply ?f (entries df) = Inl e"
        using series_apply_raises [of l r "entries df" ?f KeyError] raises by auto
      with Cons show ?thesis by (simp add: apply_axis1_def)
    qed
    with assms show False
      by (cases "apply_axis1 ?f df") (simp_all add: remove_new_lines_from_body_def)
  qed
  have bodies: "apply_axis1 ?f df = Inr (map (\<lambda>(l, r). (l, r ''body'')) (entries df))"
    using col by (intro apply_axis1_total) (auto simp: row_getitem_def)
  from assms bodies obtain letters where
    letters: "series_apply py_list (map (\<lambda>(l, r). (l, r ''body'')) (entries df)) = Inr letters"
    by (auto simp: remove_new_lines_from_body_def split: sum.splits)
  from series_apply_InrD [OF letters]
  have texts: "\<forall>(l, r) \<in> set (entries df). py_list (r ''body'') = Inr (projr (py_list (r ''body'')))"
    by auto
  have istext: "is_text (r ''body'')" if "(l, r) \<in> set (entries df)" for l r
    using texts that py_list_InrD by blast
  then have all: "list_all (\<lambda>(l, r). is_text (r ''body'')) (entries df)"
    by (auto simp: list_all_iff)
  have "series_apply py_list (map (\<lambda>(l, r). (l, r ''body'')) (entries df))
          = Inr (map (\<lambda>(l, v). (l, map (\<lambda>c. [c]) (text_of v))) (map (\<lambda>(l, r). (l, r ''body'')) (entries df)))"
  proof (rule series_apply_total, clarify)
    fix l v assume "(l, v) \<in> set (map (\<lambda>(l, r). (l, r ''body'')) (entries df))"
    then obtain r where "(l, r) \<in> set (entries df)" "v = r ''body''" by auto
    with istext show "py_list v = Inr (map (\<lambda>c. [c]) (text_of v))"
      by (simp add: py_list_text)
  qed
  with letters have
    l: "letters = map (\<lambda>(l, r). (l, map (\<lambda>c. [c]) (text_of (r ''body'')))) (entries df)"
    by (simp add: case_prod_unfold comp_def)
  have s: "series_map (\<lambda>letters. Str (concat letters))
             (series_map (map (\<lambda>letter. replace_char newline [] letter)) letters)
           = map (\<lambda>(l, r). (l, Str (filter (\<lambda>c. c \<noteq> newline) (text_of (r ''body''))))) (entries df)"
    unfolding l series_map_def
    by (simp add: case_prod_unfold comp_def concat_replace_each)
  from assms have "setitem df ''body''
     (map (\<lambda>(l, r). (l, Str (filter (\<lambda>c. c \<noteq> newline) (text_of (r ''body''))))) (entries df)) = Inr df'"
    by (simp add: remove_new_lines_from_body_def bodies letters s)
  then have "df' = \<lparr>columns = add_column ''body'' (columns df),
                    entries = map (\<lambda>(l, r). (l, r(''body'' := Str (filter (\<lambda>c. c \<noteq> newline) (text_of (r ''body'')))))) (entries df)\<rparr>"
    unfolding setitem_rowwise by simp
  with col all show ?thesis by (simp add: add_column_member)
qed

lemma remove_new_lines_from_body_total:
  assumes "''body'' \<in> set (columns df)"
    and "list_all (\<lambda>(l, r). is_text (r ''body'')) (entries df)"
  shows "\<exists>df'. remove_new_lines_from_body df = Inr df'"
proof -
  have bodies: "apply_axis1 (\<lambda>row. row_getitem (columns df) row ''body'') df
                  = Inr (map (\<lambda>(l, r). (l, r ''body'')) (entries df))"
    using assms(1) by (intro apply_axis1_total) (auto simp: row_getitem_def)
  have "series_apply py_list (map (\<lambda>(l, r). (l, r ''body'')) (entries df))
          = Inr (map (\<lambda>(l, v). (l, map (\<lambda>c. [c]) (text_of v))) (map (\<lambda>(l, r). (l, r ''body'')) (entries df)))"
    using assms(2) by (intro series_apply_total) (auto simp: list_all_iff py_list_text)
  then have letters: "series_apply py_list (map (\<lambda>(l, r). (l, r ''body'')) (entries df))
          = Inr (map (\<lambda>(l, r). (l, map (\<lambda>c. [c]) (text_of (r ''body'')))) (entries df))"
    by (simp add: case_prod_unfold comp_def)
  have s: "series_map (\<lambda>letters. Str (concat letters))
             (series_map (map (\<lambda>letter. replace_char newline [] letter))
                (map (\<lambda>(l, r). (l, map (\<lambda>c. [c]) (text_of (r ''body'')))) (entries df)))
           = map (\<lambda>(l, r). (l, Str (filter (\<lambda>c. c \<noteq> newline) (text_of (r ''body''))))) (entries df)"
    unfolding series_map_def
    by (simp add: case_prod_unfold comp_def concat_replace_each)
  show ?thesis
    by (simp add: remove_new_lines_from_body_def bodies letters s setitem_rowwise)
qed

text \<open>
  C5. On a table with a \<open>body\<close> column and a text in every body,
  \<^verbatim>\<open>_remove_new_lines_from_body\<close> raises nothing; each row keeps its label and every cell but
  its body, which becomes the old body without its newline characters, the other
  characters unchanged and in order. So the new body holds no newline, is no longer than
  the old one, and an empty body stays empty.
\<close>

theorem remove_new_lines_from_body_strips:
  assumes "''body'' \<in> set (columns df)"
    and "list_all (\<lambda>(l, r). is_text (r ''body'')) (entries df)"
  shows "\<exists>df'. remove_new_lines_from_body df = Inr df'
           \<and> columns df' = columns df
           \<and> entries df' =
               map (\<lambda>(l, r). (l, r(''body'' := Str (filter (\<lambda>c. c \<noteq> newline) (text_of (r ''body''))))))
                 (entries df)
           \<and> list_all (\<lambda>(l, r). is_text (r ''body'') \<and> newline \<notin> set (text_of (r ''body''))) (entries df')
           \<and> list_all2 (\<lambda>(l, r) (l', r'). l' = l
                  \<and> length (text_of (r' ''body'')) \<le> length (text_of (r ''body''))
                  \<and> (text_of (r ''body'') = [] \<longrightarrow> r' ''body'' = Str []))
                (entries df) (entries df')"
proof -
  from remove_new_lines_from_body_total [OF assms] obtain df' where
    r: "remove_new_lines_from_body df = Inr df'" by blast
  from remove_new_lines_from_body_InrD [OF r] have
    c: "columns df' = columns df" and
    e: "entries df' =
          map (\<lambda>(l, r). (l, r(''body'' := Str (filter (\<lambda>c. c \<noteq> newline) (text_of (r ''body''))))))
            (entries df)"
    by simp_all
  have a: "list_all (\<lambda>(l, r). is_text (r ''body'') \<and> newline \<notin> set (text_of (r ''body''))) (entries df')"
    unfolding e by (simp add: list_all_iff case_prod_unfold)
  have b: "list_all2 (\<lambda>(l, r) (l', r'). l' = l
                  \<and> length (text_of (r' ''body'')) \<le> length (text_of (r ''body''))
                  \<and> (text_of (r ''body'') = [] \<longrightarrow> r' ''body'' = Str []))
                (entries df) (entries df')"
    unfolding e by (simp add: list_all2_map2 case_prod_unfold list.rel_refl)
  from r c e a b show ?thesis by blast
qed

theorem remove_new_lines_from_body_strips_witness:
  "column_values ''body'' (projr (remove_new_lines_from_body example_bodies)) = [Str ''HelloWorld'', Str []]
   \<and> isl (remove_new_lines_from_body example_bodies) = False"
proof -
  have 1: "''body'' \<in> set (columns example_bodies)" by (simp add: example_bodies_def)
  have 2: "list_all (\<lambda>(l, r). is_text (r ''body'')) (entries example_bodies)"
    by (simp add: example_bodies_def)
  from remove_new_lines_from_body_strips [OF 1 2] obtain df' where
    r: "remove_new_lines_from_body example_bodies = Inr df'" and
    e: "entries df' =
          map (\<lambda>(l, r). (l, r(''body'' := Str (filter (\<lambda>c. c \<noteq> newline) (text_of (r ''body''))))))
            (entries example_bodies)"
    by blast
  show ?thesis
    unfolding r by (simp add: column_values_def e example_bodies_def newline_def)
qed

subsection \<open>The source identifier\<close>

text \<open>
  C7. \<^verbatim>\<open>_extract_newspaper_uid\<close> raises nothing and returns what stands before the first
  \<open>_\<close> of the file name: the whole name when it has no \<open>_\<close>, the empty text for the empty
  name. \<^verbatim>\<open>_add_newspaper_uid_column\<close> writes that one value into the \<open>newspaper_uid\<close> cell
  of every row, and keeps the labels.
\<close>

theorem newspaper_uid_stamp:
  "\<exists>uid. extract_newspaper_uid filename = Inr uid
     \<and> uid = takeWhile (\<lambda>c. c \<noteq> CHR ''_'') filename
     \<and> (CHR ''_'' \<notin> set filename \<longrightarrow> uid = filename)
     \<and> (\<forall>pre post. filename = pre @ CHR ''_'' # post \<and> CHR ''_'' \<notin> set pre \<longrightarrow> uid = pre)
     \<and> (filename = [] \<longrightarrow> uid = [])
     \<and> ''newspaper_uid'' \<in> set (columns (add_newspaper_uid_column df uid))
     \<and> labels (add_newspaper_uid_column df uid) = labels df
     \<and> column_values ''newspaper_uid'' (add_newspaper_uid_column df uid)
          = replicate (length (entries df)) (Str uid)"
proof -
  let ?uid = "takeWhile (\<lambda>c. c \<noteq> CHR ''_'') filename"
  have 1: "extract_newspaper_uid filename = Inr ?uid"
    by (simp add: extract_newspaper_uid_def subscript0_split_char)
  have 2: "CHR ''_'' \<notin> set filename \<longrightarrow> ?uid = filename"
    by (simp add: takeWhile_all)
  have 3: "\<forall>pre post. filename = pre @ CHR ''_'' # post \<and> CHR ''_'' \<notin> set pre \<longrightarrow> ?uid = pre"
    by (auto simp: takeWhile_prefix)
  have 4: "''newspaper_uid'' \<in> set (columns (add_newspaper_uid_column df ?uid))"
    by (simp add: add_newspaper_uid_column_def setitem_scalar_def add_column_def)
  have 5: "labels (add_newspaper_uid_column df ?uid) = labels df"
    by (simp add: add_newspaper_uid_column_def setitem_scalar_def labels_def case_prod_unfold comp_def)
  have 6: "column_values ''newspaper_uid'' (add_newspaper_uid_column df ?uid)
          = replicate (length (entries df)) (Str ?uid)"
    by (simp add: add_newspaper_uid_column_def setitem_scalar_def column_values_def
          case_prod_unfold comp_def map_replicate_const)
  have 7: "filename = [] \<longrightarrow> ?uid = []" by simp
  show ?thesis
    by (rule exI [of _ ?uid]) (use 1 2 3 4 5 6 7 in blast)
qed

theorem newspaper_uid_stamp_witness:
  "extract_newspaper_uid ''elpais_2021_05.csv'' = Inr ''elpais''
   \<and> extract_newspaper_uid ''elpais.csv'' = Inr ''elpais.csv''
   \<and> column_values ''newspaper_uid'' (add_newspaper_uid_column example_bodies ''elpais'')
        = [Str ''elpais'', Str ''elpais'']"
proof -
  from newspaper_uid_stamp [of "''elpais_2021_05.csv''" example_bodies]
  have a: "extract_newspaper_uid ''elpais_2021_05.csv'' = Inr ''elpais''"
    and b: "column_values ''newspaper_uid'' (add_newspaper_uid_column example_bodies ''elpais'')
        = replicate (length (entries example_bodies)) (Str ''elpais'')"
    by auto
  from newspaper_uid_stamp [of "''elpais.csv''" example_bodies]
  have c: "extract_newspaper_uid ''elpais.csv'' = Inr ''elpais.csv''"
    by auto
  from a b c show ?thesis by (simp add: example_bodies_def)
qed

section \<open>What a stage returns\<close>

lemma setitem_InrD:
  "setitem df c s = Inr df' \<Longrightarrow>
     columns df' = add_column c (columns df)
     \<and> (\<exists>vs. length vs = length (entries df)
            \<and> entries df' = map (\<lambda>((l, r), v). (l, r(c := v))) (zip (entries df) vs))"
proof -
  assume a: "setitem df c s = Inr df'"
  then obtain vs where vs: "reindex_values s (labels df) = Inr vs"
    by (auto simp: setitem_def split: sum.splits)
  then have "length vs = length (entries df)"
    by (auto simp: reindex_values_def labels_def split: if_splits dest: arg_cong [where f = length])
  with a vs show ?thesis
    by (auto simp: setitem_def)
qed

lemma zip_update_labels:
  "length vs = length es \<Longrightarrow> map fst (map (\<lambda>((l, r), v). (l, r(c := v))) (zip es vs)) = map fst es"
  by (induction es vs rule: list_induct2') auto

lemma zip_update_other:
  "length vs = length es \<Longrightarrow> d \<noteq> c \<Longrightarrow>
     map (\<lambda>(l, r). r d) (map (\<lambda>((l, r), v). (l, r(c := v))) (zip es vs)) = map (\<lambda>(l, r). r d) es"
  by (induction es vs rule: list_induct2') auto

lemma setitem_frame:
  assumes "setitem df c s = Inr df'"
  shows "labels df' = labels df" and "d \<noteq> c \<Longrightarrow> column_values d df' = column_values d df"
    and "length (entries df') = length (entries df)"
proof -
  from setitem_InrD [OF assms] obtain vs where
    l: "length vs = length (entries df)" and
    e: "entries df' = map (\<lambda>((l, r), v). (l, r(c := v))) (zip (entries df) vs)"
    by blast
  show "labels df' = labels df"
    unfolding labels_def e using l by (rule zip_update_labels)
  show "column_values d df' = column_values d df" if "d \<noteq> c"
    unfolding column_values_def e using l that by (rule zip_update_other)
  show "length (entries df') = length (entries df)"
    unfolding e using l by simp
qed

subsection \<open>The host extractor\<close>

lemma getitem_InrD:
  "getitem df c = Inr s \<Longrightarrow> c \<in> set (columns df) \<and> s = map (\<lambda>(l, r). (l, r c)) (entries df)"
  by (auto simp: getitem_def split: if_splits)

lemma extract_host_unfold:
  "extract_host netloc df =
     (case getitem df ''uri'' of
        Inl e \<Rightarrow> Inl e
      | Inr uris \<Rightarrow>
          (case series_apply (host_of netloc) uris of
             Inl e \<Rightarrow> Inl e
           | Inr hosts \<Rightarrow> setitem df ''host'' hosts))"
  unfolding extract_host_def host_of_def ..

lemma host_of_Inr:
  "host_of netloc v = Inr w \<longleftrightarrow> (\<exists>u h. v = Str u \<and> netloc u = Inr h \<and> w = Str h)"
  by (cases v) (auto simp: host_of_def split: sum.splits)

lemma host_of_Inl:
  "isl (host_of netloc v) \<longleftrightarrow> (\<not> is_text v \<or> isl (netloc (text_of v)))"
  by (cases v) (auto simp: host_of_def split: sum.splits)

lemma extract_host_InrD:
  assumes "extract_host netloc df = Inr df'"
  shows "''uri'' \<in> set (columns df)
         \<and> list_all (\<lambda>(l, r). \<exists>u h. r ''uri'' = Str u \<and> netloc u = Inr h) (entries df)
         \<and> columns df' = add_column ''host'' (columns df)
         \<and> entries df' = map (\<lambda>(l, r). (l, r(''host'' := Str (projr (netloc (text_of (r ''uri''))))))) (entries df)"
proof -
  from assms obtain uris hosts where
    u: "getitem df ''uri'' = Inr uris" and
    h: "series_apply (host_of netloc) uris = Inr hosts" and
    s: "setitem df ''host'' hosts = Inr df'"
    by (auto simp: extract_host_unfold split: sum.splits)
  from getitem_InrD [OF u] have col: "''uri'' \<in> set (columns df)"
    and uris: "uris = map (\<lambda>(l, r). (l, r ''uri'')) (entries df)" by simp_all
  from series_apply_InrD [OF h]
  have hosts: "hosts = map (\<lambda>(l, v). (l, projr (host_of netloc v))) uris"
    and ok: "\<forall>(l, v) \<in> set uris. host_of netloc v = Inr (projr (host_of netloc v))"
    by simp_all
  have each: "\<exists>u h. r ''uri'' = Str u \<and> netloc u = Inr h" if "(l, r) \<in> set (entries df)" for l r
  proof -
    from that have "(l, r ''uri'') \<in> set uris" unfolding uris by force
    with ok have "host_of netloc (r ''uri'') = Inr (projr (host_of netloc (r ''uri'')))" by auto
    then show ?thesis unfolding host_of_Inr by blast
  qed
  then have all: "list_all (\<lambda>(l, r). \<exists>u h. r ''uri'' = Str u \<and> netloc u = Inr h) (entries df)"
    by (auto simp: list_all_iff)
  have "hosts = map (\<lambda>(l, r). (l, projr (host_of netloc (r ''uri'')))) (entries df)"
    unfolding hosts uris by (simp add: case_prod_unfold comp_def)
  also have "\<dots> = map (\<lambda>(l, r). (l, Str (projr (netloc (text_of (r ''uri'')))))) (entries df)"
  proof (rule map_cong [OF refl])
    fix x assume x: "x \<in> set (entries df)"
    obtain l r where lr: "x = (l, r)" by (cases x)
    from each [of l r] x lr obtain u h where "r ''uri'' = Str u" "netloc u = Inr h" by blast
    then show "(case x of (l, r) \<Rightarrow> (l, projr (host_of netloc (r ''uri''))))
             = (case x of (l, r) \<Rightarrow> (l, Str (projr (netloc (text_of (r ''uri''))))))"
      unfolding lr by (simp add: host_of_def)
  qed
  finally have "setitem df ''host''
      (map (\<lambda>(l, r). (l, Str (projr (netloc (text_of (r ''uri'')))))) (entries df)) = Inr df'"
    using s by simp
  then have "df' = \<lparr>columns = add_column ''host'' (columns df),
       entries = map (\<lambda>(l, r). (l, r(''host'' := Str (projr (netloc (text_of (r ''uri''))))))) (entries df)\<rparr>"
    unfolding setitem_rowwise by simp
  with col all show ?thesis by simp
qed

lemma extract_host_InlD:
  assumes "extract_host netloc df = Inl e"
  shows "''uri'' \<notin> set (columns df)
         \<or> list_ex (\<lambda>(l, r). \<not> is_text (r ''uri'') \<or> isl (netloc (text_of (r ''uri'')))) (entries df)"
proof (rule ccontr)
  assume "\<not> ?thesis"
  then have col: "''uri'' \<in> set (columns df)"
    and ok: "\<forall>(l, r) \<in> set (entries df). is_text (r ''uri'') \<and> \<not> isl (netloc (text_of (r ''uri'')))"
    by (auto simp: list_ex_iff)
  have u: "getitem df ''uri'' = Inr (map (\<lambda>(l, r). (l, r ''uri'')) (entries df))"
    using col by (simp add: getitem_def)
  have "series_apply (host_of netloc) (map (\<lambda>(l, r). (l, r ''uri'')) (entries df))
          = Inr (map (\<lambda>(l, v). (l, projr (host_of netloc v))) (map (\<lambda>(l, r). (l, r ''uri'')) (entries df)))"
  proof (rule series_apply_total, clarify)
    fix l v assume "(l, v) \<in> set (map (\<lambda>(l, r). (l, r ''uri'')) (entries df))"
    then obtain r where "(l, r) \<in> set (entries df)" "v = r ''uri''" by auto
    with ok have "\<not> isl (host_of netloc v)" unfolding host_of_Inl by auto
    then show "host_of netloc v = Inr (projr (host_of netloc v))" by (cases "host_of netloc v") auto
  qed
  then have h: "series_apply (host_of netloc) (map (\<lambda>(l, r). (l, r ''uri'')) (entries df))
          = Inr (map (\<lambda>(l, r). (l, projr (host_of netloc (r ''uri'')))) (entries df))"
    by (simp add: case_prod_unfold comp_def)
  from assms show False
    by (simp add: extract_host_unfold u h setitem_rowwise)
qed

lemma netloc_without_slash:
  assumes "CHR ''/'' \<notin> set url"
  shows "urlparse_netloc url = Inr []"
proof -
  let ?u = "filter (\<lambda>c. c \<noteq> CHR 0x09 \<and> c \<noteq> CHR 0x0D \<and> c \<noteq> CHR 0x0A) url"
  have no: "CHR ''/'' \<notin> set (drop n ?u)" for n
    using assms in_set_dropD [of "CHR ''/''" n ?u] by auto
  have "take 2 r \<noteq> ''//''" if "CHR ''/'' \<notin> set r" for r :: string
    using that in_set_takeD [of "CHR ''/''" 2 r] by (cases r) auto
  with no [of 0] no show ?thesis
    by (simp add: urlparse_netloc_def Let_def)
qed

lemma netloc_example_com:
  "urlparse_netloc ''http://example.com/news/big-story-today'' = Inr ''example.com''"
  by (simp add: urlparse_netloc_def Let_def scheme_char_def)

lemma netloc_not_a_url: "urlparse_netloc ''not a url'' = Inr []"
  by (simp add: netloc_without_slash)

lemma netloc_bad_bracket: "urlparse_netloc ''http://[bad/page'' = Inl ValueError"
  by (simp add: urlparse_netloc_def Let_def scheme_char_def)

text \<open>
  C8, as the code has it. \<^verbatim>\<open>_extract_host\<close> returns a table exactly when \<open>uri\<close> is a
  column, every uri is a text and the parser accepts every one of them; each row's \<open>host\<close>
  is then the network location the parser gives for that row's uri, and a uri without
  any \<open>/\<close> has the empty one. Nothing catches what the parser raises: when it raises for
  one row, the call raises and returns no table.
\<close>

theorem extract_host_netloc:
  "(case extract_host netloc df of
      Inr df' \<Rightarrow>
        list_all (\<lambda>(l, r). \<exists>u h. r ''uri'' = Str u \<and> netloc u = Inr h) (entries df)
        \<and> entries df' =
            map (\<lambda>(l, r). (l, r(''host'' := Str (projr (netloc (text_of (r ''uri''))))))) (entries df)
    | Inl e \<Rightarrow>
        ''uri'' \<notin> set (columns df)
        \<or> list_ex (\<lambda>(l, r). \<not> is_text (r ''uri'') \<or> isl (netloc (text_of (r ''uri'')))) (entries df))
   \<and> (CHR ''/'' \<notin> set url \<longrightarrow> urlparse_netloc url = Inr [])"
proof (cases "extract_host netloc df")
  case (Inl e)
  from extract_host_InlD [OF this] Inl show ?thesis
    by (simp add: netloc_without_slash)
next
  case (Inr df')
  from extract_host_InrD [OF this] Inr show ?thesis
    by (simp add: netloc_without_slash)
qed

theorem extract_host_netloc_witness:
  "isl (extract_host urlparse_netloc example_hosts) = False
   \<and> column_values ''host'' (projr (extract_host urlparse_netloc example_hosts))
       = [Str ''example.com'', Str []]"
proof (cases "extract_host urlparse_netloc example_hosts")
  case (Inl e)
  with extract_host_netloc [where netloc = urlparse_netloc and df = example_hosts]
  have "''uri'' \<notin> set (columns example_hosts)
        \<or> list_ex (\<lambda>(l, r). \<not> is_text (r ''uri'') \<or> isl (urlparse_netloc (text_of (r ''uri''))))
             (entries example_hosts)"
    by simp
  then show ?thesis
    by (simp add: example_hosts_def netloc_example_com netloc_not_a_url)
next
  case (Inr df')
  with extract_host_netloc [where netloc = urlparse_netloc and df = example_hosts]
  have "entries df' =
          map (\<lambda>(l, r). (l, r(''host'' := Str (projr (urlparse_netloc (text_of (r ''uri'')))))))
            (entries example_hosts)"
    by simp
  with Inr show ?thesis
    by (simp add: column_values_def example_hosts_def netloc_example_com netloc_not_a_url)
qed

theorem extract_host_malformed_counterexample:
  "extract_host urlparse_netloc example_bad_uri = Inl ValueError"
  by (simp add: extract_host_def getitem_def example_bad_uri_def netloc_bad_bracket
        urlparse_netloc_def Let_def scheme_char_def)

subsection \<open>The row identifier\<close>

lemma generate_uids_for_rows_unfold:
  "generate_uids_for_rows md5_hexdigest df =
     (case apply_axis1 (hash_of_row (columns df)) df of
        Inl e \<Rightarrow> Inl e
      | Inr hash_objects \<Rightarrow>
          (case setitem df ''uid'' (series_map (\<lambda>hash_object. Str (md5_hexdigest hash_object)) hash_objects) of
             Inl e \<Rightarrow> Inl e
           | Inr df' \<Rightarrow> set_index df' ''uid''))"
  unfolding generate_uids_for_rows_def hash_of_row_def ..

lemma hash_of_row_Inr:
  "hash_of_row cols r = Inr h \<longleftrightarrow> (''uri'' \<in> set cols \<and> is_text (r ''uri'') \<and> h = encode (text_of (r ''uri'')))"
  by (cases "r ''uri''") (auto simp: hash_of_row_def row_getitem_def)

lemma generate_uids_for_rows_result:
  assumes "''uri'' \<in> set (columns df)" and "entries df \<noteq> []"
    and "list_all (\<lambda>(l, r). is_text (r ''uri'')) (entries df)"
  shows "generate_uids_for_rows md5_hexdigest df =
           Inr \<lparr>columns = removeAll ''uid'' (columns df),
                entries = map (\<lambda>(l, r). (Str (md5_hexdigest (encode (text_of (r ''uri'')))), r(''uid'' := NaN)))
                            (entries df)\<rparr>"
proof -
  have h: "apply_axis1 (hash_of_row (columns df)) df
             = Inr (map (\<lambda>(l, r). (l, encode (text_of (r ''uri'')))) (entries df))"
    using assms by (intro apply_axis1_total) (auto simp: hash_of_row_Inr list_all_iff)
  have s: "series_map (\<lambda>hash_object. Str (md5_hexdigest hash_object))
             (map (\<lambda>(l, r). (l, encode (text_of (r ''uri'')))) (entries df))
           = map (\<lambda>(l, r). (l, Str (md5_hexdigest (encode (text_of (r ''uri'')))))) (entries df)"
    by (simp add: series_map_def case_prod_unfold comp_def)
  have st: "setitem df ''uid''
              (map (\<lambda>(l, r). (l, Str (md5_hexdigest (encode (text_of (r ''uri'')))))) (entries df))
            = Inr \<lparr>columns = add_column ''uid'' (columns df),
                   entries = map (\<lambda>(l, r). (l, r(''uid'' := Str (md5_hexdigest (encode (text_of (r ''uri'')))))))
                               (entries df)\<rparr>"
    by (rule setitem_rowwise)
  have ix: "set_index \<lparr>columns = add_column ''uid'' (columns df),
                   entries = map (\<lambda>(l, r). (l, r(''uid'' := Str (md5_hexdigest (encode (text_of (r ''uri'')))))))
                               (entries df)\<rparr> ''uid''
            = Inr \<lparr>columns = removeAll ''uid'' (columns df),
                entries = map (\<lambda>(l, r). (Str (md5_hexdigest (encode (text_of (r ''uri'')))), r(''uid'' := NaN)))
                            (entries df)\<rparr>"
    by (simp add: set_index_def add_column_def case_prod_unfold comp_def)
  show ?thesis
    by (simp only: generate_uids_for_rows_unfold h s st ix sum.case)
qed

lemma generate_uids_for_rows_InrD:
  assumes "generate_uids_for_rows md5_hexdigest df = Inr df'"
  shows "''uri'' \<in> set (columns df) \<and> entries df \<noteq> []
         \<and> list_all (\<lambda>(l, r). is_text (r ''uri'')) (entries df)"
proof -
  from assms obtain t where t: "apply_axis1 (hash_of_row (columns df)) df = Inr t"
    by (auto simp: generate_uids_for_rows_unfold split: sum.splits)
  have "isl (hash_of_row (columns df) (\<lambda>c. NaN))"
    by (simp add: hash_of_row_def row_getitem_def)
  with t have ne: "entries df \<noteq> []" by (rule apply_axis1_no_rows)
  from apply_axis1_InrD [OF t] have
    ok: "\<forall>(l, r) \<in> set (entries df). hash_of_row (columns df) r = Inr (projr (hash_of_row (columns df) r))"
    by simp_all
  from ne obtain l r where "(l, r) \<in> set (entries df)" by (cases "entries df") auto
  with ok have "hash_of_row (columns df) r = Inr (projr (hash_of_row (columns df) r))" by auto
  then have col: "''uri'' \<in> set (columns df)" unfolding hash_of_row_Inr by simp
  have "is_text (r ''uri'')" if "(l, r) \<in> set (entries df)" for l r
  proof -
    from ok that have "hash_of_row (columns df) r = Inr (projr (hash_of_row (columns df) r))" by auto
    then show ?thesis unfolding hash_of_row_Inr by simp
  qed
  then have "list_all (\<lambda>(l, r). is_text (r ''uri'')) (entries df)"
    by (auto simp: list_all_iff)
  with col ne show ?thesis by simp
qed

text \<open>
  C3. On a table with a \<open>uri\<close> column, at least one row and a text in every uri,
  \<^verbatim>\<open>_generate_uids_for_rows\<close> returns the table keyed by \<open>uid\<close>: the label of each row is
  the hexadecimal MD5 digest of the UTF-8 bytes of that row's uri, whatever its old label
  and its other cells were; \<open>uid\<close> is the index and not a column, and the cells of the
  other columns are unchanged.
\<close>

theorem generate_uids_for_rows_md5:
  assumes "''uri'' \<in> set (columns df)" and "entries df \<noteq> []"
    and "list_all (\<lambda>(l, r). is_text (r ''uri'')) (entries df)"
  shows "\<exists>df'. generate_uids_for_rows md5_hexdigest df = Inr df'
           \<and> labels df' = map (\<lambda>(l, r). Str (md5_hexdigest (encode (text_of (r ''uri''))))) (entries df)
           \<and> columns df' = removeAll ''uid'' (columns df)
           \<and> (\<forall>c. c \<noteq> ''uid'' \<longrightarrow> column_values c df' = column_values c df)"
  unfolding generate_uids_for_rows_result [OF assms]
  by (simp add: labels_def column_values_def case_prod_unfold comp_def)

lemma hex_digest_examples:
  "hex_digest (encode ''ab'') = ''6162''" "hex_digest (encode ''a/c'') = ''612f63''"
  by (simp_all add: hex_digest_def encode_def encode_char_def hex_digit_def)

theorem generate_uids_for_rows_md5_witness:
  "isl (generate_uids_for_rows hex_digest example_uris) = False
   \<and> labels (projr (generate_uids_for_rows hex_digest example_uris))
        = [Str ''6162'', Str ''612f63'', Str ''6162'']
   \<and> columns (projr (generate_uids_for_rows hex_digest example_uris)) = [''uri'', ''title'']
   \<and> column_values ''uri'' (projr (generate_uids_for_rows hex_digest example_uris))
        = [Str ''ab'', Str ''a/c'', Str ''ab'']"
proof -
  have 1: "''uri'' \<in> set (columns example_uris)" by (simp add: example_uris_def)
  have 2: "entries example_uris \<noteq> []" by (simp add: example_uris_def)
  have 3: "list_all (\<lambda>(l, r). is_text (r ''uri'')) (entries example_uris)"
    by (simp add: example_uris_def)
  from generate_uids_for_rows_md5 [OF 1 2 3, of hex_digest] obtain df' where
    "generate_uids_for_rows hex_digest example_uris = Inr df'"
    "labels df' = map (\<lambda>(l, r). Str (hex_digest (encode (text_of (r ''uri''))))) (entries example_uris)"
    "columns df' = removeAll ''uid'' (columns example_uris)"
    "column_values ''uri'' df' = column_values ''uri'' example_uris"
    by auto
  then show ?thesis
    by (simp add: example_uris_def column_values_def hex_digest_examples)
qed

subsection \<open>The title repairer\<close>

lemma fill_nan_data_unfold:
  "fill_nan_data df =
     (case getitem df ''title'' of
        Inl e \<Rightarrow> Inl e
      | Inr titles \<Rightarrow>
          (case getitem (boolean_index df (map (\<lambda>(l, v). v = NaN) titles)) ''uri'' of
             Inl e \<Rightarrow> Inl e
           | Inr uris \<Rightarrow>
               if \<not> str_accessor (column_values ''uri'' df) then Inl AttributeError
               else
                 (case series_apply title_words (series_map str_extract uris) of
                    Inl e \<Rightarrow> Inl e
                  | Inr title_word_lists \<Rightarrow>
                      Inr (loc_setitem df (map (\<lambda>(l, v). v = NaN) titles) ''title''
                             (series_map (\<lambda>title_word_list. Str (py_join '' '' title_word_list))
                                title_word_lists)))))"
  unfolding fill_nan_data_def title_words_def Let_def ..

lemma boolean_index_filter:
  "map fst (filter snd (zip es (map (\<lambda>(l, r). P r) es))) = filter (\<lambda>(l, r). P r) es"
  by (induction es) auto

lemma assign_where_rowwise:
  "assign_where (map (\<lambda>(l, r). P r) es) es c (map (\<lambda>(l, r). g r) (filter (\<lambda>(l, r). P r) es))
     = map (\<lambda>(l, r). (l, if P r then r(c := g r) else r)) es"
  by (induction es) auto

lemma title_words_Inr:
  "title_words (str_extract v) = Inr ws \<longleftrightarrow>
     (\<exists>u. v = Str u \<and> u \<noteq> [] \<and> last u \<noteq> CHR ''/''
          \<and> ws = split_char CHR ''-'' (rev (takeWhile (\<lambda>c. c \<noteq> CHR ''/'') (rev u))))"
proof (cases v)
  case (Str u)
  show ?thesis
  proof (cases "search_last_segment u")
    case None
    with Str show ?thesis
      using search_last_segment_None [of u] by (auto simp: title_words_def)
  next
    case (Some seg)
    then have "\<not> (u = [] \<or> last u = CHR ''/'')"
      using search_last_segment_None [of u] by simp
    with Str Some search_last_segment_Some [OF Some] show ?thesis
      by (auto simp: title_words_def)
  qed
qed (auto simp: title_words_def)

lemma title_words_good:
  "has_last_segment v \<Longrightarrow>
     title_words (str_extract v)
       = Inr (split_char CHR ''-'' (rev (takeWhile (\<lambda>c. c \<noteq> CHR ''/'') (rev (text_of v)))))"
  unfolding title_words_Inr by (cases v) (auto simp: has_last_segment_def)

lemma title_words_bad:
  "\<not> has_last_segment v \<Longrightarrow> title_words (str_extract v) = Inl AttributeError"
proof -
  assume a: "\<not> has_last_segment v"
  have "\<not> (\<exists>ws. title_words (str_extract v) = Inr ws)"
    unfolding title_words_Inr using a by (auto simp: has_last_segment_def)
  then show ?thesis
    by (cases "str_extract v") (auto simp: title_words_def)
qed

lemma series_apply_InlD:
  "series_apply f s = Inl e \<Longrightarrow> \<exists>(l, v) \<in> set s. f v = Inl e"
  by (induction f s rule: series_apply.induct) (auto split: sum.splits)

lemma slug_title_join:
  "py_join '' '' (split_char CHR ''-'' (rev (takeWhile (\<lambda>c. c \<noteq> CHR ''/'') (rev u)))) = slug_title u"
  unfolding slug_title_def by (rule join_split_char)

lemma fill_nan_data_cases:
  assumes t: "''title'' \<in> set (columns df)" and u: "''uri'' \<in> set (columns df)"
    and acc: "str_accessor (column_values ''uri'' df)"
  shows "fill_nan_data df =
           (if list_all (\<lambda>(l, r). title_missing r \<longrightarrow> has_last_segment (r ''uri'')) (entries df)
            then Inr (df\<lparr>entries :=
                        map (\<lambda>(l, r). (l, if title_missing r
                                            then r(''title'' := Str (slug_title (text_of (r ''uri''))))
                                            else r))
                          (entries df)\<rparr>)
            else Inl AttributeError)"
proof -
  let ?es = "entries df"
  let ?miss = "filter (\<lambda>(l, r). title_missing r) ?es"
  have titles: "getitem df ''title'' = Inr (map (\<lambda>(l, r). (l, r ''title'')) ?es)"
    using t by (simp add: getitem_def)
  have m: "map (\<lambda>(l, v). v = NaN) (map (\<lambda>(l, r). (l, r ''title'')) ?es)
             = map (\<lambda>(l, r). title_missing r) ?es"
    by (simp add: title_missing_def case_prod_unfold comp_def)
  have b: "boolean_index df (map (\<lambda>(l, r). title_missing r) ?es) = df\<lparr>entries := ?miss\<rparr>"
    by (simp add: boolean_index_def boolean_index_filter)
  have uris: "getitem (df\<lparr>entries := ?miss\<rparr>) ''uri'' = Inr (map (\<lambda>(l, r). (l, r ''uri'')) ?miss)"
    using u by (simp add: getitem_def)
  have ex: "series_map str_extract (map (\<lambda>(l, r). (l, r ''uri'')) ?miss)
              = map (\<lambda>(l, r). (l, str_extract (r ''uri''))) ?miss"
    by (simp add: series_map_def case_prod_unfold comp_def)
  have start: "fill_nan_data df =
      (case series_apply title_words (map (\<lambda>(l, r). (l, str_extract (r ''uri''))) ?miss) of
         Inl e \<Rightarrow> Inl e
       | Inr title_word_lists \<Rightarrow>
           Inr (loc_setitem df (map (\<lambda>(l, r). title_missing r) ?es) ''title''
                  (series_map (\<lambda>title_word_list. Str (py_join '' '' title_word_list)) title_word_lists)))"
    by (simp only: fill_nan_data_unfold titles sum.case m b uris ex acc not_True_eq_False if_False)
  show ?thesis
  proof (cases "list_all (\<lambda>(l, r). title_missing r \<longrightarrow> has_last_segment (r ''uri'')) ?es")
    case True
    have "series_apply title_words (map (\<lambda>(l, r). (l, str_extract (r ''uri''))) ?miss)
            = Inr (map (\<lambda>(l, v). (l, projr (title_words v))) (map (\<lambda>(l, r). (l, str_extract (r ''uri''))) ?miss))"
    proof (rule series_apply_total, clarify)
      fix l v assume "(l, v) \<in> set (map (\<lambda>(l, r). (l, str_extract (r ''uri''))) ?miss)"
      then obtain r where "(l, r) \<in> set ?es" "title_missing r" "v = str_extract (r ''uri'')" by auto
      with True have "has_last_segment (r ''uri'')" by (auto simp: list_all_iff)
      with \<open>v = str_extract (r ''uri'')\<close> show "title_words v = Inr (projr (title_words v))"
        by (simp add: title_words_good)
    qed
    also have "map (\<lambda>(l, v). (l, projr (title_words v))) (map (\<lambda>(l, r). (l, str_extract (r ''uri''))) ?miss)
                 = map (\<lambda>(l, r). (l, projr (title_words (str_extract (r ''uri''))))) ?miss"
      by (simp add: case_prod_unfold comp_def)
    finally have ws: "series_apply title_words (map (\<lambda>(l, r). (l, str_extract (r ''uri''))) ?miss)
            = Inr (map (\<lambda>(l, r). (l, projr (title_words (str_extract (r ''uri''))))) ?miss)" .
    have vals: "map snd (series_map (\<lambda>title_word_list. Str (py_join '' '' title_word_list))
                   (map (\<lambda>(l, r). (l, projr (title_words (str_extract (r ''uri''))))) ?miss))
                = map (\<lambda>(l, r). Str (py_join '' '' (projr (title_words (str_extract (r ''uri'')))))) ?miss"
      by (simp add: series_map_def case_prod_unfold comp_def)
    have rowwise: "assign_where (map (\<lambda>(l, r). title_missing r) ?es) ?es ''title''
             (map (\<lambda>(l, r). Str (py_join '' '' (projr (title_words (str_extract (r ''uri'')))))) ?miss)
           = map (\<lambda>(l, r). (l, if title_missing r
                                 then r(''title'' := Str (py_join '' '' (projr (title_words (str_extract (r ''uri''))))))
                                 else r)) ?es"
      by (rule assign_where_rowwise)
    have "map (\<lambda>(l, r). (l, if title_missing r
                                 then r(''title'' := Str (py_join '' '' (projr (title_words (str_extract (r ''uri''))))))
                                 else r)) ?es
          = map (\<lambda>(l, r). (l, if title_missing r
                                 then r(''title'' := Str (slug_title (text_of (r ''uri''))))
                                 else r)) ?es"
    proof (rule map_cong [OF refl])
      fix x assume x: "x \<in> set ?es"
      obtain l r where lr: "x = (l, r)" by (cases x)
      have "py_join '' '' (projr (title_words (str_extract (r ''uri'')))) = slug_title (text_of (r ''uri''))"
        if "title_missing r"
      proof -
        from True x lr that have "has_last_segment (r ''uri'')" by (auto simp: list_all_iff)
        then show ?thesis by (simp add: title_words_good slug_title_join)
      qed
      then show "(case x of (l, r) \<Rightarrow> (l, if title_missing r
                                 then r(''title'' := Str (py_join '' '' (projr (title_words (str_extract (r ''uri''))))))
                                 else r))
           = (case x of (l, r) \<Rightarrow> (l, if title_missing r
                                 then r(''title'' := Str (slug_title (text_of (r ''uri''))))
                                 else r))"
        unfolding lr by simp
    qed
    with rowwise have "assign_where (map (\<lambda>(l, r). title_missing r) ?es) ?es ''title''
             (map (\<lambda>(l, r). Str (py_join '' '' (projr (title_words (str_extract (r ''uri'')))))) ?miss)
           = map (\<lambda>(l, r). (l, if title_missing r
                                 then r(''title'' := Str (slug_title (text_of (r ''uri''))))
                                 else r)) ?es"
      by simp
    with True show ?thesis
      unfolding start ws by (simp add: loc_setitem_def vals)
  next
    case False
    then obtain l r where lr: "(l, r) \<in> set ?es" "title_missing r" "\<not> has_last_segment (r ''uri'')"
      by (auto simp: list_all_iff)
    then have "(l, str_extract (r ''uri'')) \<in> set (map (\<lambda>(l, r). (l, str_extract (r ''uri''))) ?miss)"
      by force
    moreover have "title_words (str_extract (r ''uri'')) = Inl AttributeError"
      using lr(3) by (rule title_words_bad)
    ultimately obtain e where
      e: "series_apply title_words (map (\<lambda>(l, r). (l, str_extract (r ''uri''))) ?miss) = Inl e"
      using series_apply_raises [of l "str_extract (r ''uri'')" _ title_words AttributeError] by blast
    from series_apply_InlD [OF e] obtain v where "title_words v = Inl e" by blast
    then have "e = AttributeError"
      by (cases v) (auto simp: title_words_def)
    with e False show ?thesis
      unfolding start by simp
  qed
qed

lemma fill_nan_data_InrD:
  assumes "fill_nan_data df = Inr df'"
  shows "''title'' \<in> set (columns df)" and "''uri'' \<in> set (columns df)"
    and "str_accessor (column_values ''uri'' df)"
  using assms
  by (auto simp: fill_nan_data_unfold getitem_def boolean_index_def split: sum.splits if_splits)

lemma texts_str_accessor:
  "list_all (\<lambda>(l, r). is_text (r ''uri'')) (entries df) \<Longrightarrow> str_accessor (column_values ''uri'' df)"
  by (cases "entries df") (auto simp: str_accessor_def column_values_def)

text \<open>
  \<^verbatim>\<open>_fill_nan_data\<close> where it returns. It returns a table when \<open>title\<close> and \<open>uri\<close> are
  columns, every uri is a text and every row without a title has a uri that is not empty
  and does not end in \<open>/\<close>. Whenever it returns a table, the columns and labels are the old ones, a row
  without a title has got as its title what follows the last \<open>/\<close> of its uri, with a
  space for every \<open>-\<close>, and its other cells are unchanged; a row with a title is unchanged.
\<close>

theorem fill_nan_data_repairs:
  "(''title'' \<in> set (columns df) \<and> ''uri'' \<in> set (columns df)
      \<and> list_all (\<lambda>(l, r). is_text (r ''uri'')) (entries df)
      \<and> list_all (\<lambda>(l, r). title_missing r \<longrightarrow> has_last_segment (r ''uri'')) (entries df)
     \<longrightarrow> (\<exists>df'. fill_nan_data df = Inr df'))
   \<and> (\<forall>df'. fill_nan_data df = Inr df' \<longrightarrow>
          columns df' = columns df
          \<and> list_all2 (\<lambda>(l, r) (l', r'). l' = l
                \<and> (title_missing r \<longrightarrow>
                      has_last_segment (r ''uri'')
                      \<and> r' = r(''title'' := Str (slug_title (text_of (r ''uri'')))))
                \<and> (\<not> title_missing r \<longrightarrow> r' = r))
              (entries df) (entries df'))"
proof (intro conjI impI allI)
  assume a: "''title'' \<in> set (columns df) \<and> ''uri'' \<in> set (columns df)
      \<and> list_all (\<lambda>(l, r). is_text (r ''uri'')) (entries df)
      \<and> list_all (\<lambda>(l, r). title_missing r \<longrightarrow> has_last_segment (r ''uri'')) (entries df)"
  then have "str_accessor (column_values ''uri'' df)" by (simp add: texts_str_accessor)
  with a show "\<exists>df'. fill_nan_data df = Inr df'"
    by (simp add: fill_nan_data_cases)
next
  fix df' assume r: "fill_nan_data df = Inr df'"
  note pre = fill_nan_data_InrD [OF r]
  from r have good: "list_all (\<lambda>(l, r). title_missing r \<longrightarrow> has_last_segment (r ''uri'')) (entries df)"
    and df': "df' = df\<lparr>entries :=
                        map (\<lambda>(l, r). (l, if title_missing r
                                            then r(''title'' := Str (slug_title (text_of (r ''uri''))))
                                            else r))
                          (entries df)\<rparr>"
    unfolding fill_nan_data_cases [OF pre] by (auto split: if_splits)
  show "columns df' = columns df" unfolding df' by simp
  show "list_all2 (\<lambda>(l, r) (l', r'). l' = l
                \<and> (title_missing r \<longrightarrow>
                      has_last_segment (r ''uri'')
                      \<and> r' = r(''title'' := Str (slug_title (text_of (r ''uri'')))))
                \<and> (\<not> title_missing r \<longrightarrow> r' = r))
              (entries df) (entries df')"
    unfolding df' using good
    by (auto simp: list_all2_map2 list_all_iff intro!: list.rel_refl_strong)
qed

lemma slug_title_example:
  "slug_title ''http://example.com/news/big-story-today'' = ''big story today''"
  by (simp add: slug_title_def)

theorem fill_nan_data_repairs_witness:
  "isl (fill_nan_data example_titles) = False
   \<and> column_values ''title'' (projr (fill_nan_data example_titles))
        = [Str ''big story today'', Str ''Given title'']
   \<and> column_values ''uri'' (projr (fill_nan_data example_titles))
        = [Str ''http://example.com/news/big-story-today'', Str ''http://example.com/x-y'']"
proof -
  have pre: "''title'' \<in> set (columns example_titles) \<and> ''uri'' \<in> set (columns example_titles)
      \<and> list_all (\<lambda>(l, r). is_text (r ''uri'')) (entries example_titles)
      \<and> list_all (\<lambda>(l, r). title_missing r \<longrightarrow> has_last_segment (r ''uri'')) (entries example_titles)"
    by (simp add: example_titles_def title_missing_def has_last_segment_def)
  with fill_nan_data_repairs [of example_titles] obtain df' where
    r: "fill_nan_data example_titles = Inr df'" by blast
  with fill_nan_data_repairs [of example_titles] have
    "list_all2 (\<lambda>(l, r) (l', r'). l' = l
                \<and> (title_missing r \<longrightarrow>
                      has_last_segment (r ''uri'')
                      \<and> r' = r(''title'' := Str (slug_title (text_of (r ''uri'')))))
                \<and> (\<not> title_missing r \<longrightarrow> r' = r))
              (entries example_titles) (entries df')"
    by blast
  then have "column_values ''title'' df' = [Str ''big story today'', Str ''Given title'']
     \<and> column_values ''uri'' df'
        = [Str ''http://example.com/news/big-story-today'', Str ''http://example.com/x-y'']"
    by (auto simp: example_titles_def title_missing_def column_values_def slug_title_example
          list_all2_Cons1)
  with r show ?thesis by simp
qed

text \<open>
  C6. A table with two rows without a title: the uri of the first ends in \<open>/\<close>, the uri of
  the second ends in the segment \<open>a-b-c\<close>. The second row should get the title \<open>a b c\<close>;
  but \<^verbatim>\<open>applymap\<close> calls \<^verbatim>\<open>title.split('-')\<close> on the NaN that \<^verbatim>\<open>str.extract\<close> gives for
  the first row, the call raises AttributeError, and no title is set.
\<close>

theorem fill_nan_data_good_row_not_repaired:
  "column_values ''title'' example_slug_and_slash = [NaN, NaN]
   \<and> column_values ''uri'' example_slug_and_slash
        = [Str ''http://example.com/news/'', Str ''http://example.com/news/a-b-c'']
   \<and> slug_title ''http://example.com/news/a-b-c'' = ''a b c''
   \<and> fill_nan_data example_slug_and_slash = Inl AttributeError"
proof -
  have "''title'' \<in> set (columns example_slug_and_slash)"
    and "''uri'' \<in> set (columns example_slug_and_slash)"
    and "str_accessor (column_values ''uri'' example_slug_and_slash)"
    by (simp_all add: example_slug_and_slash_def str_accessor_def column_values_def)
  then have "fill_nan_data example_slug_and_slash = Inl AttributeError"
    by (simp add: fill_nan_data_cases)
       (simp add: example_slug_and_slash_def title_missing_def has_last_segment_def)
  then show ?thesis
    by (simp add: example_slug_and_slash_def column_values_def slug_title_def)
qed

text \<open>
  C4. A row without a title whose uri ends in \<open>/\<close>: \<^verbatim>\<open>str.extract\<close> gives NaN for it,
  \<^verbatim>\<open>applymap\<close> calls \<^verbatim>\<open>title.split('-')\<close> on that NaN, and the call raises AttributeError
  instead of returning a table in which the title is still missing.
\<close>

theorem fill_nan_data_trailing_slash_raises:
  "fill_nan_data example_trailing_slash = Inl AttributeError"
proof -
  have "''title'' \<in> set (columns example_trailing_slash)"
    and "''uri'' \<in> set (columns example_trailing_slash)"
    and "str_accessor (column_values ''uri'' example_trailing_slash)"
    by (simp_all add: example_trailing_slash_def str_accessor_def column_values_def)
  then show ?thesis
    by (simp add: fill_nan_data_cases)
       (simp add: example_trailing_slash_def title_missing_def has_last_segment_def)
qed

subsection \<open>The tokenizer\<close>

lemma lower_example: "lower ''Hola Mundo'' = ''hola mundo''"
  by code_simp

lemma isalpha_example: "isalpha ''Hola'' \<and> \<not> isalpha ''2021'' \<and> \<not> isalpha ''a-b'' \<and> \<not> isalpha []"
  by (simp add: isalpha_def isalpha_char_def)

lemma series_apply_map:
  "series_apply f (map (\<lambda>(l, r). (l, g r)) s) = series_apply (\<lambda>r. f (g r)) s"
  by (induction s) (auto split: sum.splits)

lemma series_map_map: "series_map f (series_map g s) = series_map (\<lambda>v. f (g v)) s"
  by (simp add: series_map_def case_prod_unfold comp_def)

lemma tokenize_column_unfold:
  "tokenize_column word_tokenize stop_words df column_name =
     (case (if complete_rows df = [] then Inl ValueError
            else series_apply (cell_tokens word_tokenize (column_name \<in> set (columns df)))
                   (map (\<lambda>(l, r). (l, r column_name)) (complete_rows df))) of
        Inl e \<Rightarrow> Inl e
      | Inr tokens \<Rightarrow>
          setitem df (''n_tokens_'' @ column_name) (series_map (count_cell stop_words) tokens))"
proof -
  have f: "(\<lambda>row. case row_getitem (columns df) row column_name of
                      Inl e \<Rightarrow> Inl e
                    | Inr (Str s) \<Rightarrow> Inr (word_tokenize s)
                    | Inr _ \<Rightarrow> Inl TypeError)
           = (\<lambda>r. cell_tokens word_tokenize (column_name \<in> set (columns df)) (r column_name))"
    by (rule ext) (simp add: row_getitem_def cell_tokens_def)
  have c: "(\<lambda>v. Numeric (int (length (filter (\<lambda>word. word \<notin> stop_words) (map lower (filter isalpha v))))))
            = count_cell stop_words"
    by (rule ext) (simp add: count_cell_def)
  have n: "cell_tokens word_tokenize b NaN = Inl (if b then TypeError else KeyError)" for b
    by (simp add: cell_tokens_def)
  show ?thesis
    unfolding tokenize_column_def f series_map_map c apply_axis1_def
    by (simp add: dropna_def complete_rows_def series_apply_map n)
qed

lemma column_values_zip_update:
  "length vs = length es \<Longrightarrow>
     map (\<lambda>(l, r). r c) (map (\<lambda>((l, r), v). (l, r(c := v))) (zip es vs)) = vs"
  by (induction es vs rule: list_induct2') auto

lemma filter_same_length: "length (filter P xs) = length xs \<Longrightarrow> filter P xs = xs"
proof (induction xs)
  case Nil
  show ?case by simp
next
  case (Cons x xs)
  have le: "length (filter P xs) \<le> length xs" by (rule length_filter_le)
  show ?case
  proof (cases "P x")
    case True
    with Cons show ?thesis by simp
  next
    case False
    with Cons.prems le show ?thesis by simp
  qed
qed

lemma reindex_filtered_distinct:
  assumes d: "distinct (map fst es)"
  shows "reindex_values (map (\<lambda>(l, r). (l, g r)) (filter (\<lambda>(l, r). P r) es)) (map fst es)
           = Inr (map (\<lambda>(l, r). if P r then g r else NaN) es)"
proof -
  let ?kept = "filter (\<lambda>(l, r). P r) es"
  let ?s = "map (\<lambda>(l, r). (l, g r)) ?kept"
  have fst_s: "map fst ?s = map fst ?kept"
    by (simp add: case_prod_unfold comp_def)
  show ?thesis
  proof (cases "map fst ?s = map fst es")
    case True
    then have "length ?kept = length es"
      unfolding fst_s by (rule map_eq_imp_length_eq)
    then have all: "?kept = es" by (rule filter_same_length)
    then have P: "P r" if "(l, r) \<in> set es" for l r
      using that filter_id_conv [of "\<lambda>(l, r). P r" es] by auto
    have "map snd ?s = map (\<lambda>(l, r). g r) es"
      unfolding all by (simp add: case_prod_unfold comp_def)
    also have "\<dots> = map (\<lambda>(l, r). if P r then g r else NaN) es"
      using P by (intro map_cong [OF refl]) auto
    finally show ?thesis
      using True by (simp add: reindex_values_def)
  next
    case False
    have ds: "distinct (map fst ?s)"
      unfolding fst_s using d by (rule distinct_map_filter)
    have each: "(case map_of ?s l of Some v \<Rightarrow> v | None \<Rightarrow> NaN) = (if P r then g r else NaN)"
      if lr: "(l, r) \<in> set es" for l r
    proof (cases "P r")
      case True
      with lr have "(l, g r) \<in> set ?s" by force
      with ds have "map_of ?s l = Some (g r)" by (rule map_of_is_SomeI)
      with True show ?thesis by simp
    next
      case nP: False
      have "l \<notin> fst ` set ?s"
      proof
        assume "l \<in> fst ` set ?s"
        then obtain r' where r': "(l, r') \<in> set es" "P r'" by auto
        from d lr r'(1) have "r = r'" by (rule eq_key_imp_eq_value)
        with nP r'(2) show False by simp
      qed
      then have "map_of ?s l = None" by (simp add: map_of_eq_None_iff)
      with nP show ?thesis by simp
    qed
    have "map (\<lambda>l. case map_of ?s l of Some v \<Rightarrow> v | None \<Rightarrow> NaN) (map fst es)
            = map (\<lambda>(l, r). case map_of ?s l of Some v \<Rightarrow> v | None \<Rightarrow> NaN) es"
      by (simp add: case_prod_unfold comp_def)
    also have "\<dots> = map (\<lambda>(l, r). if P r then g r else NaN) es"
      using each by (intro map_cong [OF refl]) auto
    finally show ?thesis
      using False ds by (simp add: reindex_values_def)
  qed
qed

lemma cell_tokens_Inr:
  "cell_tokens word_tokenize b v = Inr ts \<longleftrightarrow> (b \<and> is_text v \<and> ts = word_tokenize (text_of v))"
  by (cases v) (auto simp: cell_tokens_def)

lemma count_cell_tokens:
  "count_cell stop_words (word_tokenize s) = Numeric (valid_word_count word_tokenize stop_words s)"
  by (simp add: count_cell_def valid_word_count_def)

lemma tokenize_column_InrD:
  assumes "tokenize_column word_tokenize stop_words df column_name = Inr df'"
  shows "column_name \<in> set (columns df)" and "complete_rows df \<noteq> []"
    and "list_all (\<lambda>(l, r). is_text (r column_name)) (complete_rows df)"
    and "setitem df (''n_tokens_'' @ column_name)
           (map (\<lambda>(l, r). (l, Numeric (valid_word_count word_tokenize stop_words (text_of (r column_name)))))
              (complete_rows df)) = Inr df'"
proof -
  let ?f = "cell_tokens word_tokenize (column_name \<in> set (columns df))"
  let ?s = "map (\<lambda>(l, r). (l, r column_name)) (complete_rows df)"
  from assms show ne: "complete_rows df \<noteq> []"
    by (auto simp: tokenize_column_unfold split: if_splits)
  with assms obtain tokens where
    t: "series_apply ?f ?s = Inr tokens" and
    s: "setitem df (''n_tokens_'' @ column_name) (series_map (count_cell stop_words) tokens) = Inr df'"
    by (auto simp: tokenize_column_unfold split: sum.splits)
  from series_apply_InrD [OF t] have
    tokens: "tokens = map (\<lambda>(l, v). (l, projr (?f v))) ?s" and
    ok: "\<forall>(l, v) \<in> set ?s. ?f v = Inr (projr (?f v))" by simp_all
  have each: "column_name \<in> set (columns df) \<and> is_text (r column_name)
              \<and> projr (?f (r column_name)) = word_tokenize (text_of (r column_name))"
    if "(l, r) \<in> set (complete_rows df)" for l r
  proof -
    from that have "(l, r column_name) \<in> set ?s" by force
    with ok have "?f (r column_name) = Inr (projr (?f (r column_name)))" by auto
    then show ?thesis unfolding cell_tokens_Inr .
  qed
  from ne obtain l r where "(l, r) \<in> set (complete_rows df)"
    by (cases "complete_rows df") auto
  from each [OF this] show "column_name \<in> set (columns df)" by simp
  from each show "list_all (\<lambda>(l, r). is_text (r column_name)) (complete_rows df)"
    by (auto simp: list_all_iff)
  have "series_map (count_cell stop_words) tokens
          = map (\<lambda>(l, r). (l, count_cell stop_words (projr (?f (r column_name))))) (complete_rows df)"
    unfolding tokens by (simp add: series_map_def case_prod_unfold comp_def)
  also have "\<dots> = map (\<lambda>(l, r). (l, Numeric (valid_word_count word_tokenize stop_words (text_of (r column_name)))))
              (complete_rows df)"
  proof (rule map_cong [OF refl])
    fix x assume x: "x \<in> set (complete_rows df)"
    obtain l r where lr: "x = (l, r)" by (cases x)
    from each [of l r] x lr
    have "projr (?f (r column_name)) = word_tokenize (text_of (r column_name))" by blast
    then show "(case x of (l, r) \<Rightarrow> (l, count_cell stop_words (projr (?f (r column_name)))))
        = (case x of (l, r) \<Rightarrow> (l, Numeric (valid_word_count word_tokenize stop_words (text_of (r column_name)))))"
      unfolding lr by (simp add: count_cell_tokens)
  qed
  finally show "setitem df (''n_tokens_'' @ column_name)
           (map (\<lambda>(l, r). (l, Numeric (valid_word_count word_tokenize stop_words (text_of (r column_name)))))
              (complete_rows df)) = Inr df'"
    using s by simp
qed

lemma tokenize_column_total:
  assumes "column_name \<in> set (columns df)" and "complete_rows df \<noteq> []"
    and "list_all (\<lambda>(l, r). is_text (r column_name)) (complete_rows df)"
  shows "tokenize_column word_tokenize stop_words df column_name =
           setitem df (''n_tokens_'' @ column_name)
             (map (\<lambda>(l, r). (l, Numeric (valid_word_count word_tokenize stop_words (text_of (r column_name)))))
                (complete_rows df))"
proof -
  let ?f = "cell_tokens word_tokenize (column_name \<in> set (columns df))"
  let ?s = "map (\<lambda>(l, r). (l, r column_name)) (complete_rows df)"
  have "series_apply ?f ?s = Inr (map (\<lambda>(l, v). (l, word_tokenize (text_of v))) ?s)"
    using assms(1,3) by (intro series_apply_total) (auto simp: list_all_iff cell_tokens_Inr)
  then have t: "series_apply ?f ?s
      = Inr (map (\<lambda>(l, r). (l, word_tokenize (text_of (r column_name)))) (complete_rows df))"
    by (simp add: case_prod_unfold comp_def)
  have c: "series_map (count_cell stop_words)
             (map (\<lambda>(l, r). (l, word_tokenize (text_of (r column_name)))) (complete_rows df))
           = map (\<lambda>(l, r). (l, Numeric (valid_word_count word_tokenize stop_words (text_of (r column_name)))))
                (complete_rows df)"
    by (simp add: series_map_def case_prod_unfold comp_def count_cell_tokens)
  from assms(2) show ?thesis
    by (simp only: tokenize_column_unfold t c if_False sum.case)
qed

lemma zip_rowwise_values:
  "map (\<lambda>((l, r), v). (l, r(c := v))) (zip es (map (\<lambda>(l, r). h r) es))
     = map (\<lambda>(l, r). (l, r(c := h r))) es"
  by (induction es) auto

lemma tokenize_column_distinct:
  assumes d: "distinct (labels df)"
    and r: "tokenize_column word_tokenize stop_words df column_name = Inr df'"
  shows "df' = \<lparr>columns = add_column (''n_tokens_'' @ column_name) (columns df),
               entries = map (\<lambda>(l, r). (l, r(''n_tokens_'' @ column_name :=
                                 (if row_complete (columns df) r
                                  then Numeric (valid_word_count word_tokenize stop_words (text_of (r column_name)))
                                  else NaN))))
                           (entries df)\<rparr>"
proof -
  let ?g = "\<lambda>r. Numeric (valid_word_count word_tokenize stop_words (text_of (r column_name)))"
  have "reindex_values (map (\<lambda>(l, r). (l, ?g r)) (complete_rows df)) (labels df)
          = Inr (map (\<lambda>(l, r). if row_complete (columns df) r then ?g r else NaN) (entries df))"
    unfolding complete_rows_def labels_def
    using d [unfolded labels_def] by (rule reindex_filtered_distinct)
  with tokenize_column_InrD(4) [OF r] show ?thesis
    by (simp add: setitem_def zip_rowwise_values)
qed

text \<open>
  C1, as the code has it, for a table whose labels are distinct. \<^verbatim>\<open>_tokenize_column\<close>
  returns a table when the target is a column, some row has no missing cell, and the
  target cell of every row without a missing cell is a text. Whenever it returns a
  table, each row keeps its label and its cells and gets the new cell
  \<open>n_tokens_<column>\<close>: for a row with no missing cell in any column, the number of
  tokens of its target text that are alphabetic, lower-cased and no stopword; for a row
  with a missing cell in any column, no value.
\<close>

theorem tokenize_column_counts:
  assumes "distinct (labels df)"
  shows "(column_name \<in> set (columns df)
            \<and> list_ex (\<lambda>(l, r). row_complete (columns df) r) (entries df)
            \<and> list_all (\<lambda>(l, r). row_complete (columns df) r \<longrightarrow> is_text (r column_name)) (entries df)
          \<longrightarrow> (\<exists>df'. tokenize_column word_tokenize stop_words df column_name = Inr df'))
       \<and> (\<forall>df'. tokenize_column word_tokenize stop_words df column_name = Inr df' \<longrightarrow>
             columns df' = add_column (''n_tokens_'' @ column_name) (columns df)
             \<and> list_all2 (\<lambda>(l, r) (l', r'). l' = l
                   \<and> r' = r(''n_tokens_'' @ column_name :=
                             (if row_complete (columns df) r
                              then Numeric (valid_word_count word_tokenize stop_words (text_of (r column_name)))
                              else NaN)))
                 (entries df) (entries df'))"
proof (intro conjI impI allI)
  assume a: "column_name \<in> set (columns df)
            \<and> list_ex (\<lambda>(l, r). row_complete (columns df) r) (entries df)
            \<and> list_all (\<lambda>(l, r). row_complete (columns df) r \<longrightarrow> is_text (r column_name)) (entries df)"
  let ?g = "\<lambda>r. Numeric (valid_word_count word_tokenize stop_words (text_of (r column_name)))"
  from a have ne: "complete_rows df \<noteq> []"
    by (auto simp: complete_rows_def list_ex_iff filter_empty_conv)
  from a have tx: "list_all (\<lambda>(l, r). is_text (r column_name)) (complete_rows df)"
    by (auto simp: complete_rows_def list_all_iff)
  have "reindex_values (map (\<lambda>(l, r). (l, ?g r)) (complete_rows df)) (labels df)
          = Inr (map (\<lambda>(l, r). if row_complete (columns df) r then ?g r else NaN) (entries df))"
    unfolding complete_rows_def labels_def
    using assms [unfolded labels_def] by (rule reindex_filtered_distinct)
  then show "\<exists>df'. tokenize_column word_tokenize stop_words df column_name = Inr df'"
    using a ne tx by (simp add: tokenize_column_total setitem_def)
next
  fix df' assume r: "tokenize_column word_tokenize stop_words df column_name = Inr df'"
  note e = tokenize_column_distinct [OF assms r]
  show "columns df' = add_column (''n_tokens_'' @ column_name) (columns df)"
    unfolding e by simp
  show "list_all2 (\<lambda>(l, r) (l', r'). l' = l
                   \<and> r' = r(''n_tokens_'' @ column_name :=
                             (if row_complete (columns df) r
                              then Numeric (valid_word_count word_tokenize stop_words (text_of (r column_name)))
                              else NaN)))
                 (entries df) (entries df')"
    unfolding e by (simp add: list_all2_map2 case_prod_unfold list.rel_refl)
qed

lemma space_tokenize_examples:
  "space_tokenize ''el gato come pescado'' = [''el'', ''gato'', ''come'', ''pescado'']"
  "space_tokenize ''el perro ladra'' = [''el'', ''perro'', ''ladra'']"
  "space_tokenize ''hola'' = [''hola'']"
  by (simp_all add: space_tokenize_def)

lemma valid_word_count_examples:
  "valid_word_count space_tokenize {''el''} ''el gato come pescado'' = 3"
  "valid_word_count space_tokenize {''el''} ''el perro ladra'' = 2"
  "valid_word_count space_tokenize {''el''} ''hola'' = 1"
  by (simp_all add: valid_word_count_def space_tokenize_examples isalpha_def isalpha_char_def
        lower_def lower_char_def)

theorem tokenize_column_counts_witness:
  "isl (tokenize_column space_tokenize {''el''} example_missing_title ''body'') = False
   \<and> column_values ''n_tokens_body''
        (projr (tokenize_column space_tokenize {''el''} example_missing_title ''body''))
       = [Numeric 3, NaN]
   \<and> column_values ''body''
        (projr (tokenize_column space_tokenize {''el''} example_missing_title ''body''))
       = [Str ''el gato come pescado'', Str ''el perro ladra'']"
proof -
  have d: "distinct (labels example_missing_title)"
    by (simp add: example_missing_title_def labels_def)
  have pre: "''body'' \<in> set (columns example_missing_title)
            \<and> list_ex (\<lambda>(l, r). row_complete (columns example_missing_title) r) (entries example_missing_title)
            \<and> list_all (\<lambda>(l, r). row_complete (columns example_missing_title) r \<longrightarrow> is_text (r ''body''))
                (entries example_missing_title)"
    by (simp add: example_missing_title_def row_complete_def)
  note t = tokenize_column_counts [OF d, of "''body''" space_tokenize "{''el''}"]
  from t pre obtain df' where
    r: "tokenize_column space_tokenize {''el''} example_missing_title ''body'' = Inr df'" by blast
  with t have
    "list_all2 (\<lambda>(l, r) (l', r'). l' = l
                   \<and> r' = r(''n_tokens_'' @ ''body'' :=
                             (if row_complete (columns example_missing_title) r
                              then Numeric (valid_word_count space_tokenize {''el''} (text_of (r ''body'')))
                              else NaN)))
                 (entries example_missing_title) (entries df')"
    by blast
  then have "column_values ''n_tokens_body'' df' = [Numeric 3, NaN]
     \<and> column_values ''body'' df' = [Str ''el gato come pescado'', Str ''el perro ladra'']"
    by (auto simp: example_missing_title_def column_values_def row_complete_def
          valid_word_count_examples list_all2_Cons1)
  with r show ?thesis by simp
qed

theorem tokenize_column_target_present_counterexample:
  "column_values ''body'' example_missing_title = [Str ''el gato come pescado'', Str ''el perro ladra'']
   \<and> isl (tokenize_column space_tokenize {''el''} example_missing_title ''body'') = False
   \<and> column_values ''n_tokens_body''
        (projr (tokenize_column space_tokenize {''el''} example_missing_title ''body''))
       = [Numeric 3, NaN]"
proof -
  have c: "complete_rows example_missing_title
             = [(Str ''a'', (\<lambda>c. NaN)(''title'' := Str ''hola'', ''body'' := Str ''el gato come pescado''))]"
    by (simp add: complete_rows_def example_missing_title_def row_complete_def)
  have t: "tokenize_column space_tokenize {''el''} example_missing_title ''body''
       = setitem example_missing_title ''n_tokens_body'' [(Str ''a'', Numeric 3)]"
    by (subst tokenize_column_total)
       (simp_all add: c valid_word_count_examples, simp_all add: example_missing_title_def)
  have "isl (setitem example_missing_title ''n_tokens_body'' [(Str ''a'', Numeric 3)]) = False"
    by (simp add: setitem_def reindex_values_def labels_def example_missing_title_def)
  moreover have "column_values ''n_tokens_body''
        (projr (setitem example_missing_title ''n_tokens_body'' [(Str ''a'', Numeric 3)]))
       = [Numeric 3, NaN]"
    by (simp add: setitem_def reindex_values_def labels_def example_missing_title_def column_values_def)
  moreover have "column_values ''body'' example_missing_title
       = [Str ''el gato come pescado'', Str ''el perro ladra'']"
    by (simp add: example_missing_title_def column_values_def)
  ultimately show ?thesis unfolding t by simp
qed

lemma same_missing_complete:
  "same_missing cols r1 r2 \<Longrightarrow> row_complete cols r1 = row_complete cols r2"
  by (auto simp: same_missing_def row_complete_def list_all_iff)

lemma agree_on_complete_rows:
  assumes "list_all2 (\<lambda>(l1, r1) (l2, r2). l1 = l2 \<and> r1 c = r2 c \<and> same_missing cols r1 r2) es1 es2"
  shows "map (\<lambda>(l, r). (l, r c)) (filter (\<lambda>(l, r). row_complete cols r) es1)
           = map (\<lambda>(l, r). (l, r c)) (filter (\<lambda>(l, r). row_complete cols r) es2)
         \<and> map fst es1 = map fst es2"
  using assms
  by (induction es1 es2 rule: list_all2_induct) (auto dest: same_missing_complete)

lemma reindex_values_length:
  "reindex_values s ls = Inr vs \<Longrightarrow> length vs = length ls"
  by (auto simp: reindex_values_def split: if_splits dest: arg_cong [where f = length])

lemma setitem_column:
  "map_sum id (column_values c) (setitem df c s) = reindex_values s (labels df)"
proof (cases "reindex_values s (labels df)")
  case (Inl e)
  then show ?thesis by (simp add: setitem_def)
next
  case (Inr vs)
  from reindex_values_length [OF Inr] have "length vs = length (entries df)"
    by (simp add: labels_def)
  with Inr show ?thesis
    by (simp add: setitem_def column_values_def column_values_zip_update del: map_map)
qed

lemma tokenize_column_column:
  "map_sum id (column_values (''n_tokens_'' @ c)) (tokenize_column word_tokenize stop_words df c) =
     (case (if complete_rows df = [] then Inl ValueError
            else series_apply (cell_tokens word_tokenize (c \<in> set (columns df)))
                   (map (\<lambda>(l, r). (l, r c)) (complete_rows df))) of
        Inl e \<Rightarrow> Inl e
      | Inr tokens \<Rightarrow> reindex_values (series_map (count_cell stop_words) tokens) (labels df))"
  unfolding tokenize_column_unfold
  by (auto simp: setitem_column split: sum.splits)

subsection \<open>The tokenizer on two tables\<close>

lemma agree_on_columns: "agree_on c df1 df2 \<Longrightarrow> columns df1 = columns df2"
  unfolding agree_on_def by (rule conjunct1)

lemma agree_on_entries:
  "agree_on c df1 df2 \<Longrightarrow>
     list_all2 (\<lambda>(l1, r1) (l2, r2). l1 = l2 \<and> r1 c = r2 c \<and> same_missing (columns df1) r1 r2)
       (entries df1) (entries df2)"
  unfolding agree_on_def by (rule conjunct2)

lemma tokenize_column_agree:
  assumes "agree_on c df1 df2"
  shows "map_sum id (column_values (''n_tokens_'' @ c)) (tokenize_column word_tokenize stop_words df1 c)
       = map_sum id (column_values (''n_tokens_'' @ c)) (tokenize_column word_tokenize stop_words df2 c)"
proof -
  note cols = agree_on_columns [OF assms] and rel = agree_on_entries [OF assms]
  from agree_on_complete_rows [OF rel] have
    s: "map (\<lambda>(l, r). (l, r c)) (complete_rows df1) = map (\<lambda>(l, r). (l, r c)) (complete_rows df2)"
    and l: "labels df1 = labels df2"
    by (simp_all add: complete_rows_def labels_def cols)
  from s have "length (complete_rows df1) = length (complete_rows df2)"
    by (rule map_eq_imp_length_eq)
  then have e: "(complete_rows df1 = []) = (complete_rows df2 = [])"
    by (cases "complete_rows df1"; cases "complete_rows df2") simp_all
  show ?thesis
    by (simp only: tokenize_column_column s l e cols)
qed

lemma reindex_nan_pattern:
  assumes "\<forall>(l, v) \<in> set s. v \<noteq> NaN" and "\<forall>(l, v) \<in> set t. v \<noteq> NaN"
    and k: "map fst s = map fst t"
    and vs: "reindex_values s ls = Inr vs" and ws: "reindex_values t ls = Inr ws"
  shows "map (\<lambda>v. v = NaN) vs = map (\<lambda>v. v = NaN) ws"
proof (cases "map fst s = ls")
  case True
  with vs ws k have "vs = map snd s" "ws = map snd t"
    by (simp_all add: reindex_values_def)
  moreover have "map (\<lambda>v. v = NaN) (map snd s) = map (\<lambda>p. False) s"
    using assms(1) by (auto simp: case_prod_unfold)
  moreover have "map (\<lambda>v. v = NaN) (map snd t) = map (\<lambda>p. False) t"
    using assms(2) by (auto simp: case_prod_unfold)
  moreover have "map (\<lambda>p. False) s = map (\<lambda>p. False) t"
    using map_eq_imp_length_eq [OF k] by (simp add: map_replicate_const)
  ultimately show ?thesis by simp
next
  case False
  with vs ws k have
    v: "vs = map (\<lambda>l. case map_of s l of Some v \<Rightarrow> v | None \<Rightarrow> NaN) ls" and
    w: "ws = map (\<lambda>l. case map_of t l of Some v \<Rightarrow> v | None \<Rightarrow> NaN) ls"
    by (simp_all add: reindex_values_def split: if_splits)
  have a: "((case map_of s l of Some v \<Rightarrow> v | None \<Rightarrow> NaN) = NaN) = (l \<notin> set (map fst s))" for l
  proof (cases "map_of s l")
    case None
    then have "l \<notin> set (map fst s)" by (simp add: map_of_eq_None_iff)
    with None show ?thesis by simp
  next
    case (Some v)
    then have "(l, v) \<in> set s" by (rule map_of_SomeD)
    with assms(1) Some show ?thesis by force
  qed
  have b: "((case map_of t l of Some v \<Rightarrow> v | None \<Rightarrow> NaN) = NaN) = (l \<notin> set (map fst t))" for l
  proof (cases "map_of t l")
    case None
    then have "l \<notin> set (map fst t)" by (simp add: map_of_eq_None_iff)
    with None show ?thesis by simp
  next
    case (Some v)
    then have "(l, v) \<in> set t" by (rule map_of_SomeD)
    with assms(2) Some show ?thesis by force
  qed
  show ?thesis
    unfolding v w by (simp add: a b k del: set_map)
qed

lemma same_missing_update:
  assumes "same_missing cols r1 r2" and "(v1 = NaN) = (v2 = NaN)"
  shows "same_missing (add_column c cols) (r1(c := v1)) (r2(c := v2))"
  using assms by (auto simp: same_missing_def add_column_def list_all_iff)

lemma tokenize_column_preserves_agree:
  assumes a: "agree_on c df1 df2"
    and r1: "tokenize_column word_tokenize stop_words df1 t = Inr d1"
    and r2: "tokenize_column word_tokenize stop_words df2 t = Inr d2"
    and ne: "c \<noteq> ''n_tokens_'' @ t"
  shows "agree_on c d1 d2"
proof -
  let ?c = "''n_tokens_'' @ t"
  let ?g = "\<lambda>r. Numeric (valid_word_count word_tokenize stop_words (text_of (r t)))"
  let ?s1 = "map (\<lambda>(l, r). (l, ?g r)) (complete_rows df1)"
  let ?s2 = "map (\<lambda>(l, r). (l, ?g r)) (complete_rows df2)"
  note cols = agree_on_columns [OF a] and rel = agree_on_entries [OF a]
  from agree_on_complete_rows [OF rel] have
    s: "map (\<lambda>(l, r). (l, r c)) (complete_rows df1) = map (\<lambda>(l, r). (l, r c)) (complete_rows df2)"
    and l: "labels df1 = labels df2"
    by (simp_all add: complete_rows_def labels_def cols)
  from s have "map fst (map (\<lambda>(l, r). (l, r c)) (complete_rows df1))
             = map fst (map (\<lambda>(l, r). (l, r c)) (complete_rows df2))" by simp
  then have k: "map fst ?s1 = map fst ?s2"
    by (simp add: case_prod_unfold comp_def)
  from tokenize_column_InrD(4) [OF r1] obtain vs where
    vs: "reindex_values ?s1 (labels df1) = Inr vs" and
    d1: "d1 = \<lparr>columns = add_column ?c (columns df1),
               entries = map (\<lambda>((l, r), v). (l, r(?c := v))) (zip (entries df1) vs)\<rparr>"
    by (auto simp: setitem_def split: sum.splits)
  from tokenize_column_InrD(4) [OF r2] obtain ws where
    ws: "reindex_values ?s2 (labels df2) = Inr ws" and
    d2: "d2 = \<lparr>columns = add_column ?c (columns df2),
               entries = map (\<lambda>((l, r), v). (l, r(?c := v))) (zip (entries df2) ws)\<rparr>"
    by (auto simp: setitem_def split: sum.splits)
  have pat: "map (\<lambda>v. v = NaN) vs = map (\<lambda>v. v = NaN) ws"
    by (rule reindex_nan_pattern [OF _ _ k vs ws [folded l]]) auto
  have lv: "length vs = length (entries df1)"
    using reindex_values_length [OF vs] by (simp add: labels_def)
  have lw: "length ws = length (entries df2)"
    using reindex_values_length [OF ws] by (simp add: labels_def)
  have le: "length (entries df1) = length (entries df2)"
    using rel by (rule list_all2_lengthD)
  have "list_all2 (\<lambda>(l1, r1) (l2, r2). l1 = l2 \<and> r1 c = r2 c
            \<and> same_missing (add_column ?c (columns df1)) r1 r2)
          (map (\<lambda>((l, r), v). (l, r(?c := v))) (zip (entries df1) vs))
          (map (\<lambda>((l, r), v). (l, r(?c := v))) (zip (entries df2) ws))"
  proof (rule list_all2_all_nthI)
    show "length (map (\<lambda>((l, r), v). (l, r(?c := v))) (zip (entries df1) vs))
        = length (map (\<lambda>((l, r), v). (l, r(?c := v))) (zip (entries df2) ws))"
      using lv lw le by simp
  next
    fix i assume "i < length (map (\<lambda>((l, r), v). (l, r(?c := v))) (zip (entries df1) vs))"
    then have i: "i < length (entries df1)" using lv by simp
    obtain l1 r1 where e1: "entries df1 ! i = (l1, r1)" by (cases "entries df1 ! i")
    obtain l2 r2 where e2: "entries df2 ! i = (l2, r2)" by (cases "entries df2 ! i")
    from list_all2_nthD [OF rel i] e1 e2 have
      rl: "l1 = l2" "r1 c = r2 c" "same_missing (columns df1) r1 r2" by simp_all
    from pat have "map (\<lambda>v. v = NaN) vs ! i = map (\<lambda>v. v = NaN) ws ! i" by simp
    then have p: "(vs ! i = NaN) = (ws ! i = NaN)"
      using i lv lw le by simp
    have n1: "map (\<lambda>((l, r), v). (l, r(?c := v))) (zip (entries df1) vs) ! i = (l1, r1(?c := vs ! i))"
      using i lv e1 by simp
    have n2: "map (\<lambda>((l, r), v). (l, r(?c := v))) (zip (entries df2) ws) ! i = (l2, r2(?c := ws ! i))"
      using i lw le e2 by simp
    show "(case map (\<lambda>((l, r), v). (l, r(?c := v))) (zip (entries df1) vs) ! i of
            (l1, r1) \<Rightarrow> \<lambda>(l2, r2). l1 = l2 \<and> r1 c = r2 c
                \<and> same_missing (add_column ?c (columns df1)) r1 r2)
           (map (\<lambda>((l, r), v). (l, r(?c := v))) (zip (entries df2) ws) ! i)"
      unfolding n1 n2 using rl ne p same_missing_update [OF rl(3) p, of ?c] by simp
  qed
  then show ?thesis
    unfolding agree_on_def d1 d2 using cols by simp
qed

lemma tokenize_both_titles:
  "isl (tokenize_title_then_body space_tokenize {''el''} example_both_titles) = False
   \<and> column_values ''n_tokens_body''
        (projr (tokenize_title_then_body space_tokenize {''el''} example_both_titles))
       = [Numeric 3, Numeric 2]"
  by (simp add: tokenize_title_then_body_def and_then_def tokenize_column_def apply_axis1_def
        dropna_def row_complete_def row_getitem_def series_map_def setitem_def reindex_values_def
        labels_def add_column_def example_both_titles_def column_values_def
        space_tokenize_def isalpha_def isalpha_char_def lower_def lower_char_def)

lemma tokenize_missing_title:
  "isl (tokenize_title_then_body space_tokenize {''el''} example_missing_title) = False
   \<and> column_values ''n_tokens_body''
        (projr (tokenize_title_then_body space_tokenize {''el''} example_missing_title))
       = [Numeric 3, NaN]"
  by (simp add: tokenize_title_then_body_def and_then_def tokenize_column_def apply_axis1_def
        dropna_def row_complete_def row_getitem_def series_map_def setitem_def reindex_values_def
        labels_def add_column_def example_missing_title_def column_values_def
        space_tokenize_def isalpha_def isalpha_char_def lower_def lower_char_def)

lemma tokenize_other_titles:
  "isl (tokenize_title_then_body space_tokenize {''el''} example_other_titles) = False
   \<and> column_values ''n_tokens_body''
        (projr (tokenize_title_then_body space_tokenize {''el''} example_other_titles))
       = [Numeric 3, Numeric 2]"
  by (simp add: tokenize_title_then_body_def and_then_def tokenize_column_def apply_axis1_def
        dropna_def row_complete_def row_getitem_def series_map_def setitem_def reindex_values_def
        labels_def add_column_def example_other_titles_def column_values_def
        space_tokenize_def isalpha_def isalpha_char_def lower_def lower_char_def)

lemma tokenize_title_then_body_InrD:
  assumes "tokenize_title_then_body word_tokenize stop_words df = Inr out"
  shows "\<exists>df6. tokenize_column word_tokenize stop_words df ''title'' = Inr df6
              \<and> tokenize_column word_tokenize stop_words df6 ''body'' = Inr out"
  using assms
  by (cases "tokenize_column word_tokenize stop_words df ''title''")
     (simp_all add: tokenize_title_then_body_def and_then_def)

text \<open>
  C2, as the code has it. When two tables have the same columns and labels, the same
  cells in the target column, and their missing cells in the same places, the tokenizer
  gives both the same count column (or raises the same exception): the texts of the
  other columns do not matter, but which of their cells are missing does. The same holds
  for \<open>n_tokens_body\<close>, and for \<open>n_tokens_title\<close>, after the two calls of \<^verbatim>\<open>main\<close>, when
  both runs return.
\<close>

theorem tokenize_column_independent:
  "(agree_on c df1 df2 \<longrightarrow>
      map_sum id (column_values (''n_tokens_'' @ c)) (tokenize_column word_tokenize stop_words df1 c)
      = map_sum id (column_values (''n_tokens_'' @ c)) (tokenize_column word_tokenize stop_words df2 c))
   \<and> (agree_on ''body'' df1 df2
        \<and> tokenize_title_then_body word_tokenize stop_words df1 = Inr out1
        \<and> tokenize_title_then_body word_tokenize stop_words df2 = Inr out2
      \<longrightarrow> column_values ''n_tokens_body'' out1 = column_values ''n_tokens_body'' out2)
   \<and> (agree_on ''title'' df1 df2
        \<and> tokenize_title_then_body word_tokenize stop_words df1 = Inr out1
        \<and> tokenize_title_then_body word_tokenize stop_words df2 = Inr out2
      \<longrightarrow> column_values ''n_tokens_title'' out1 = column_values ''n_tokens_title'' out2)"
proof (intro conjI impI)
  assume "agree_on c df1 df2"
  then show "map_sum id (column_values (''n_tokens_'' @ c)) (tokenize_column word_tokenize stop_words df1 c)
      = map_sum id (column_values (''n_tokens_'' @ c)) (tokenize_column word_tokenize stop_words df2 c)"
    by (rule tokenize_column_agree)
next
  assume a: "agree_on ''body'' df1 df2
        \<and> tokenize_title_then_body word_tokenize stop_words df1 = Inr out1
        \<and> tokenize_title_then_body word_tokenize stop_words df2 = Inr out2"
  from a tokenize_title_then_body_InrD obtain d1 where
    d1: "tokenize_column word_tokenize stop_words df1 ''title'' = Inr d1"
        "tokenize_column word_tokenize stop_words d1 ''body'' = Inr out1" by blast
  from a tokenize_title_then_body_InrD obtain d2 where
    d2: "tokenize_column word_tokenize stop_words df2 ''title'' = Inr d2"
        "tokenize_column word_tokenize stop_words d2 ''body'' = Inr out2" by blast
  from a have "agree_on ''body'' df1 df2" by simp
  then have "agree_on ''body'' d1 d2"
    using d1(1) d2(1) by (rule tokenize_column_preserves_agree) simp
  from tokenize_column_agree [OF this, of word_tokenize stop_words]
  show "column_values ''n_tokens_body'' out1 = column_values ''n_tokens_body'' out2"
    unfolding d1(2) d2(2) by simp
next
  assume a: "agree_on ''title'' df1 df2
        \<and> tokenize_title_then_body word_tokenize stop_words df1 = Inr out1
        \<and> tokenize_title_then_body word_tokenize stop_words df2 = Inr out2"
  from a tokenize_title_then_body_InrD obtain d1 where
    d1: "tokenize_column word_tokenize stop_words df1 ''title'' = Inr d1"
        "tokenize_column word_tokenize stop_words d1 ''body'' = Inr out1" by blast
  from a tokenize_title_then_body_InrD obtain d2 where
    d2: "tokenize_column word_tokenize stop_words df2 ''title'' = Inr d2"
        "tokenize_column word_tokenize stop_words d2 ''body'' = Inr out2" by blast
  from a have "agree_on ''title'' df1 df2" by simp
  from tokenize_column_agree [OF this, of word_tokenize stop_words]
  have t: "column_values ''n_tokens_title'' d1 = column_values ''n_tokens_title'' d2"
    unfolding d1(1) d2(1) by simp
  have "column_values ''n_tokens_title'' out1 = column_values ''n_tokens_title'' d1"
    using tokenize_column_InrD(4) [OF d1(2)] by (rule setitem_frame(2)) simp
  moreover have "column_values ''n_tokens_title'' out2 = column_values ''n_tokens_title'' d2"
    using tokenize_column_InrD(4) [OF d2(2)] by (rule setitem_frame(2)) simp
  ultimately show "column_values ''n_tokens_title'' out1 = column_values ''n_tokens_title'' out2"
    using t by simp
qed

theorem tokenize_column_independent_witness:
  "agree_on ''body'' example_both_titles example_other_titles
   \<and> column_values ''title'' example_both_titles = [Str ''hola'', Str ''adios amigos'']
   \<and> column_values ''title'' example_other_titles = [Str ''el gato'', Str ''perro'']
   \<and> column_values ''n_tokens_body''
        (projr (tokenize_title_then_body space_tokenize {''el''} example_both_titles))
     = column_values ''n_tokens_body''
        (projr (tokenize_title_then_body space_tokenize {''el''} example_other_titles))"
proof -
  have a: "agree_on ''body'' example_both_titles example_other_titles"
    by (simp add: agree_on_def same_missing_def example_both_titles_def example_other_titles_def)
  obtain out1 where o1: "tokenize_title_then_body space_tokenize {''el''} example_both_titles = Inr out1"
    using tokenize_both_titles
    by (cases "tokenize_title_then_body space_tokenize {''el''} example_both_titles") auto
  obtain out2 where o2: "tokenize_title_then_body space_tokenize {''el''} example_other_titles = Inr out2"
    using tokenize_other_titles
    by (cases "tokenize_title_then_body space_tokenize {''el''} example_other_titles") auto
  from tokenize_column_independent [of "''body''" example_both_titles example_other_titles
      space_tokenize "{''el''}" out1 out2] a o1 o2
  have "column_values ''n_tokens_body'' out1 = column_values ''n_tokens_body'' out2" by blast
  with a o1 o2 show ?thesis
    by (simp add: column_values_def example_both_titles_def example_other_titles_def)
qed

theorem tokenize_column_independent_counterexample:
  "columns example_both_titles = columns example_missing_title
   \<and> labels example_both_titles = labels example_missing_title
   \<and> column_values ''body'' example_both_titles = column_values ''body'' example_missing_title
   \<and> isl (tokenize_title_then_body space_tokenize {''el''} example_both_titles) = False
   \<and> isl (tokenize_title_then_body space_tokenize {''el''} example_missing_title) = False
   \<and> column_values ''n_tokens_body''
        (projr (tokenize_title_then_body space_tokenize {''el''} example_both_titles))
       = [Numeric 3, Numeric 2]
   \<and> column_values ''n_tokens_body''
        (projr (tokenize_title_then_body space_tokenize {''el''} example_missing_title))
       = [Numeric 3, NaN]"
  using tokenize_both_titles tokenize_missing_title
  by (simp add: example_both_titles_def example_missing_title_def labels_def column_values_def)

section \<open>What a stage leaves alone\<close>

lemma length_labels: "length (labels df) = length (entries df)"
  by (simp add: labels_def)

lemma add_newspaper_uid_column_frame:
  "labels (add_newspaper_uid_column df u) = labels df"
  "d \<noteq> ''newspaper_uid'' \<Longrightarrow>
     column_values d (add_newspaper_uid_column df u) = column_values d df"
  "columns (add_newspaper_uid_column df u) = add_column ''newspaper_uid'' (columns df)"
  by (simp_all add: add_newspaper_uid_column_def setitem_scalar_def labels_def column_values_def
        case_prod_unfold comp_def)

lemma extract_host_frame:
  assumes "extract_host netloc df = Inr df'"
  shows "labels df' = labels df"
    and "d \<noteq> ''host'' \<Longrightarrow> column_values d df' = column_values d df"
    and "column_values ''host'' df'
           = map (\<lambda>v. Str (projr (netloc (text_of v)))) (column_values ''uri'' df)"
    and "columns df' = add_column ''host'' (columns df)"
  using extract_host_InrD [OF assms]
  by (simp_all add: labels_def column_values_def case_prod_unfold comp_def)

lemma fill_nan_data_frame:
  assumes "fill_nan_data df = Inr df'"
  shows "labels df' = labels df"
    and "d \<noteq> ''title'' \<Longrightarrow> column_values d df' = column_values d df"
    and "column_values ''title'' df'
           = map (\<lambda>(t, u). if t = NaN then Str (slug_title (text_of u)) else t)
               (zip (column_values ''title'' df) (column_values ''uri'' df))"
    and "columns df' = columns df"
proof -
  note pre = fill_nan_data_InrD [OF assms]
  from assms have df': "df' = df\<lparr>entries :=
                        map (\<lambda>(l, r). (l, if title_missing r
                                            then r(''title'' := Str (slug_title (text_of (r ''uri''))))
                                            else r))
                          (entries df)\<rparr>"
    unfolding fill_nan_data_cases [OF pre] by (auto split: if_splits)
  show "labels df' = labels df"
    unfolding df' by (simp add: labels_def case_prod_unfold comp_def)
  show "column_values d df' = column_values d df" if "d \<noteq> ''title''"
    unfolding df' using that by (simp add: column_values_def case_prod_unfold comp_def)
  show "column_values ''title'' df'
           = map (\<lambda>(t, u). if t = NaN then Str (slug_title (text_of u)) else t)
               (zip (column_values ''title'' df) (column_values ''uri'' df))"
    unfolding df'
    by (simp add: column_values_def case_prod_unfold comp_def zip_map_map title_missing_def zip_same_conv_map)
  show "columns df' = columns df" unfolding df' by simp
qed

lemma generate_uids_for_rows_frame:
  assumes "generate_uids_for_rows md5_hexdigest df = Inr df'"
  shows "labels df' = map (\<lambda>v. Str (md5_hexdigest (encode (text_of v)))) (column_values ''uri'' df)"
    and "d \<noteq> ''uid'' \<Longrightarrow> column_values d df' = column_values d df"
    and "columns df' = removeAll ''uid'' (columns df)"
proof -
  from generate_uids_for_rows_InrD [OF assms] have
    pre: "''uri'' \<in> set (columns df)" "entries df \<noteq> []"
         "list_all (\<lambda>(l, r). is_text (r ''uri'')) (entries df)" by simp_all
  from assms have df': "df' = \<lparr>columns = removeAll ''uid'' (columns df),
                entries = map (\<lambda>(l, r). (Str (md5_hexdigest (encode (text_of (r ''uri'')))), r(''uid'' := NaN)))
                            (entries df)\<rparr>"
    unfolding generate_uids_for_rows_result [OF pre] by simp
  show "labels df' = map (\<lambda>v. Str (md5_hexdigest (encode (text_of v)))) (column_values ''uri'' df)"
    unfolding df' by (simp add: labels_def column_values_def case_prod_unfold comp_def)
  show "column_values d df' = column_values d df" if "d \<noteq> ''uid''"
    unfolding df' using that by (simp add: column_values_def case_prod_unfold comp_def)
  show "columns df' = removeAll ''uid'' (columns df)" unfolding df' by simp
qed

lemma remove_new_lines_from_body_frame:
  assumes "remove_new_lines_from_body df = Inr df'"
  shows "labels df' = labels df"
    and "d \<noteq> ''body'' \<Longrightarrow> column_values d df' = column_values d df"
    and "column_values ''body'' df'
           = map (\<lambda>v. Str (filter (\<lambda>c. c \<noteq> newline) (text_of v))) (column_values ''body'' df)"
    and "columns df' = columns df"
  using remove_new_lines_from_body_InrD [OF assms]
  by (simp_all add: labels_def column_values_def case_prod_unfold comp_def)

lemma tokenize_column_frame:
  assumes "tokenize_column word_tokenize stop_words df c = Inr df'"
  shows "labels df' = labels df"
    and "d \<noteq> ''n_tokens_'' @ c \<Longrightarrow> column_values d df' = column_values d df"
    and "columns df' = add_column (''n_tokens_'' @ c) (columns df)"
proof -
  note s = tokenize_column_InrD(4) [OF assms]
  show "labels df' = labels df" using s by (rule setitem_frame(1))
  show "column_values d df' = column_values d df" if "d \<noteq> ''n_tokens_'' @ c"
    using s that by (rule setitem_frame(2))
  show "columns df' = add_column (''n_tokens_'' @ c) (columns df)"
    using setitem_InrD [OF s] by simp
qed

section \<open>The pipeline\<close>

lemmas stage_defs =
  main_def and_then_def read_data_def extract_newspaper_uid_def subscript0_def
  add_newspaper_uid_column_def setitem_scalar_def extract_host_def getitem_def
  fill_nan_data_def boolean_index_def str_accessor_def loc_setitem_def
  generate_uids_for_rows_def remove_new_lines_from_body_def tokenize_column_def
  apply_axis1_def dropna_def row_complete_def row_getitem_def series_map_def setitem_def
  reindex_values_def labels_def add_column_def set_index_def column_values_def
  replace_char_def newline_def

lemma main_example_runs:
  "isl (main (\<lambda>filename. Inr example_input) urlparse_netloc hex_digest space_tokenize {''el''}
          ''example_2021.csv'') = False"
  by (simp add: stage_defs example_input_def netloc_example_com
        urlparse_netloc_def Let_def scheme_char_def
        space_tokenize_def isalpha_def isalpha_char_def lower_def lower_char_def
        hex_digest_def hex_digit_def encode_def encode_char_def)

lemma main_ends_with_tokenizers:
  "main read_csv netloc md5_hexdigest word_tokenize stop_words filename =
     and_then (read_data read_csv filename) (\<lambda>df0.
     and_then (extract_newspaper_uid filename) (\<lambda>newspaper_uid.
     and_then (extract_host netloc (add_newspaper_uid_column df0 newspaper_uid)) (\<lambda>df2.
     and_then (fill_nan_data df2) (\<lambda>df3.
     and_then (generate_uids_for_rows md5_hexdigest df3) (\<lambda>df4.
     and_then (remove_new_lines_from_body df4) (\<lambda>df5.
     tokenize_title_then_body word_tokenize stop_words df5))))))"
  by (simp add: main_def tokenize_title_then_body_def and_then_def)

lemma main_InrD:
  assumes "main read_csv netloc md5_hexdigest word_tokenize stop_words filename = Inr out"
  shows "\<exists>df0 df2 df3 df4 df5 df6.
           read_csv filename = Inr df0
           \<and> extract_host netloc
                 (add_newspaper_uid_column df0 (takeWhile (\<lambda>c. c \<noteq> CHR ''_'') filename)) = Inr df2
           \<and> fill_nan_data df2 = Inr df3
           \<and> generate_uids_for_rows md5_hexdigest df3 = Inr df4
           \<and> remove_new_lines_from_body df4 = Inr df5
           \<and> tokenize_column word_tokenize stop_words df5 ''title'' = Inr df6
           \<and> tokenize_column word_tokenize stop_words df6 ''body'' = Inr out"
proof -
  have u: "extract_newspaper_uid filename = Inr (takeWhile (\<lambda>c. c \<noteq> CHR ''_'') filename)"
    by (simp add: extract_newspaper_uid_def subscript0_split_char)
  from assms show ?thesis
    unfolding main_def read_data_def u and_then_def
    by (simp split: sum.splits)
qed

text \<open>
  C9, as the code has it. When \<^verbatim>\<open>main\<close> returns a table, the table after every stage has
  as many rows as the table that was read: no stage removes a row, and \<^verbatim>\<open>dropna\<close> acts on
  a copy. When the labels (the uids) of the returned table are distinct, a row has no
  value in \<open>n_tokens_title\<close>, or in \<open>n_tokens_body\<close>, exactly when \<^verbatim>\<open>dropna\<close> left it out of
  that count, that is when it had a missing cell in some column of the table given to
  that call of the tokenizer.
\<close>

theorem main_keeps_every_row:
  assumes "main read_csv netloc md5_hexdigest word_tokenize stop_words filename = Inr out"
  shows "\<exists>df0 df2 df3 df4 df5 df6.
           read_csv filename = Inr df0
           \<and> extract_host netloc
                 (add_newspaper_uid_column df0 (takeWhile (\<lambda>c. c \<noteq> CHR ''_'') filename)) = Inr df2
           \<and> fill_nan_data df2 = Inr df3
           \<and> generate_uids_for_rows md5_hexdigest df3 = Inr df4
           \<and> remove_new_lines_from_body df4 = Inr df5
           \<and> tokenize_column word_tokenize stop_words df5 ''title'' = Inr df6
           \<and> tokenize_column word_tokenize stop_words df6 ''body'' = Inr out
           \<and> length (entries df2) = length (entries df0)
           \<and> length (entries df3) = length (entries df0)
           \<and> length (entries df4) = length (entries df0)
           \<and> length (entries df5) = length (entries df0)
           \<and> length (entries df6) = length (entries df0)
           \<and> length (entries out) = length (entries df0)
           \<and> (distinct (labels out) \<longrightarrow>
                 list_all2 (\<lambda>(l, r) (l', r'). l' = l
                      \<and> (r' ''n_tokens_title'' = NaN) = (\<not> row_complete (columns df5) r))
                   (entries df5) (entries out)
                 \<and> list_all2 (\<lambda>(l, r) (l', r'). l' = l
                      \<and> (r' ''n_tokens_body'' = NaN) = (\<not> row_complete (columns df6) r))
                   (entries df6) (entries out))"
proof -
  from main_InrD [OF assms] obtain df0 df2 df3 df4 df5 df6 where
    r: "read_csv filename = Inr df0" and
    s2: "extract_host netloc
           (add_newspaper_uid_column df0 (takeWhile (\<lambda>c. c \<noteq> CHR ''_'') filename)) = Inr df2" and
    s3: "fill_nan_data df2 = Inr df3" and
    s4: "generate_uids_for_rows md5_hexdigest df3 = Inr df4" and
    s5: "remove_new_lines_from_body df4 = Inr df5" and
    s6: "tokenize_column word_tokenize stop_words df5 ''title'' = Inr df6" and
    s7: "tokenize_column word_tokenize stop_words df6 ''body'' = Inr out"
    by blast
  have "length (labels df2) = length (labels df0)"
    using extract_host_frame(1) [OF s2] by (simp add: add_newspaper_uid_column_frame(1))
  then have l2: "length (entries df2) = length (entries df0)"
    by (simp add: length_labels)
  have "length (labels df3) = length (labels df2)"
    using fill_nan_data_frame(1) [OF s3] by simp
  with l2 have l3: "length (entries df3) = length (entries df0)"
    by (simp add: length_labels)
  have "length (labels df4) = length (column_values ''uri'' df3)"
    using generate_uids_for_rows_frame(1) [OF s4] by simp
  with l3 have l4: "length (entries df4) = length (entries df0)"
    by (simp add: length_labels column_values_def)
  have "length (labels df5) = length (labels df4)"
    using remove_new_lines_from_body_frame(1) [OF s5] by simp
  with l4 have l5: "length (entries df5) = length (entries df0)"
    by (simp add: length_labels)
  have lab6: "labels df6 = labels df5" using s6 by (rule tokenize_column_frame(1))
  then have "length (labels df6) = length (labels df5)" by simp
  with l5 have l6: "length (entries df6) = length (entries df0)"
    by (simp add: length_labels)
  have lab7: "labels out = labels df6" using s7 by (rule tokenize_column_frame(1))
  then have "length (labels out) = length (labels df6)" by simp
  with l6 have l7: "length (entries out) = length (entries df0)"
    by (simp add: length_labels)
  have counts: "list_all2 (\<lambda>(l, r) (l', r'). l' = l
                      \<and> (r' ''n_tokens_title'' = NaN) = (\<not> row_complete (columns df5) r))
                   (entries df5) (entries out)
                 \<and> list_all2 (\<lambda>(l, r) (l', r'). l' = l
                      \<and> (r' ''n_tokens_body'' = NaN) = (\<not> row_complete (columns df6) r))
                   (entries df6) (entries out)"
    if d: "distinct (labels out)"
  proof -
    from d have d6: "distinct (labels df6)" unfolding lab7 .
    then have d5: "distinct (labels df5)" unfolding lab6 .
    have e6: "entries df6 = map (\<lambda>(l, r). (l, r(''n_tokens_'' @ ''title'' :=
                                 (if row_complete (columns df5) r
                                  then Numeric (valid_word_count word_tokenize stop_words (text_of (r ''title'')))
                                  else NaN))))
                           (entries df5)"
      by (subst tokenize_column_distinct [OF d5 s6]) simp
    have e7: "entries out = map (\<lambda>(l, r). (l, r(''n_tokens_'' @ ''body'' :=
                                 (if row_complete (columns df6) r
                                  then Numeric (valid_word_count word_tokenize stop_words (text_of (r ''body'')))
                                  else NaN))))
                           (entries df6)"
      by (subst tokenize_column_distinct [OF d6 s7]) simp
    have b: "list_all2 (\<lambda>(l, r) (l', r'). l' = l
                      \<and> (r' ''n_tokens_body'' = NaN) = (\<not> row_complete (columns df6) r))
                   (entries df6) (entries out)"
      unfolding e7 by (simp add: list_all2_map2 case_prod_unfold list.rel_refl)
    have t: "list_all2 (\<lambda>(l, r) (l', r'). l' = l
                      \<and> (r' ''n_tokens_title'' = NaN) = (\<not> row_complete (columns df5) r))
                   (entries df5) (entries out)"
      unfolding e7 unfolding e6
      by (simp add: list_all2_map2 case_prod_unfold list.rel_refl comp_def)
    from t b show ?thesis by simp
  qed
  from r s2 s3 s4 s5 s6 s7 l2 l3 l4 l5 l6 l7 counts show ?thesis by blast
qed

lemma main_example_labels:
  "labels (projr (main (\<lambda>filename. Inr example_input) urlparse_netloc hex_digest space_tokenize
      {''el''} ''example_2021.csv''))
     = [Str (hex_digest (encode ''http://example.com/news/big-story-today'')),
        Str (hex_digest (encode ''http://example.com/news/otra-cosa''))]"
  by (simp add: stage_defs example_input_def netloc_example_com
        urlparse_netloc_def Let_def scheme_char_def
        space_tokenize_def isalpha_def isalpha_char_def lower_def lower_char_def)

lemma example_digests_differ:
  "hex_digest (encode ''http://example.com/news/big-story-today'')
     \<noteq> hex_digest (encode ''http://example.com/news/otra-cosa'')"
  by (simp add: hex_digest_def hex_digit_def encode_def encode_char_def)

theorem main_keeps_every_row_witness:
  "isl (main (\<lambda>filename. Inr example_input) urlparse_netloc hex_digest space_tokenize {''el''}
          ''example_2021.csv'') = False
   \<and> distinct (labels (projr (main (\<lambda>filename. Inr example_input) urlparse_netloc hex_digest
          space_tokenize {''el''} ''example_2021.csv'')))
   \<and> length (entries (projr (main (\<lambda>filename. Inr example_input) urlparse_netloc hex_digest
          space_tokenize {''el''} ''example_2021.csv''))) = 2"
proof -
  obtain out where out: "main (\<lambda>filename. Inr example_input) urlparse_netloc hex_digest space_tokenize
      {''el''} ''example_2021.csv'' = Inr out"
    using main_example_runs
    by (cases "main (\<lambda>filename. Inr example_input) urlparse_netloc hex_digest space_tokenize
      {''el''} ''example_2021.csv''") auto
  from main_keeps_every_row [OF out]
  have "length (entries out) = length (entries example_input)" by auto
  moreover have "distinct (labels out)"
    using main_example_labels example_digests_differ unfolding out by simp
  ultimately show ?thesis
    using out by (simp add: example_input_def)
qed

theorem main_shared_uri_counterexample:
  "isl (main (\<lambda>filename. Inr example_shared_uri) urlparse_netloc hex_digest space_tokenize {''el''}
          ''example_2021.csv'') = False
   \<and> column_values ''date'' (projr (main (\<lambda>filename. Inr example_shared_uri) urlparse_netloc
          hex_digest space_tokenize {''el''} ''example_2021.csv''))
       = [Str ''2021-05-01'', NaN]
   \<and> column_values ''n_tokens_title'' (projr (main (\<lambda>filename. Inr example_shared_uri)
          urlparse_netloc hex_digest space_tokenize {''el''} ''example_2021.csv''))
       = [Numeric 1, Numeric 1]
   \<and> column_values ''n_tokens_body'' (projr (main (\<lambda>filename. Inr example_shared_uri)
          urlparse_netloc hex_digest space_tokenize {''el''} ''example_2021.csv''))
       = [Numeric 2, Numeric 2]"
  by (simp add: stage_defs example_shared_uri_def
        urlparse_netloc_def Let_def scheme_char_def
        space_tokenize_def isalpha_def isalpha_char_def lower_def lower_char_def
        hex_digest_def hex_digit_def encode_def encode_char_def)

lemma add_column_keeps: "c \<in> set cols \<Longrightarrow> c \<in> set (add_column d cols)"
  by (simp add: add_column_def)

text \<open>
  C10. When \<^verbatim>\<open>main\<close> returns a table, \<open>uri\<close> is still one of its columns and holds, row
  by row, the cells that were read from the file; so does every column other than
  \<open>newspaper_uid\<close>, \<open>host\<close>, \<open>title\<close>, \<open>uid\<close>, \<open>body\<close>, \<open>n_tokens_title\<close> and
  \<open>n_tokens_body\<close>. The labels (the uids), the hosts and the repaired titles of the returned
  table are computed from the uris that were read.
\<close>

theorem main_keeps_uri:
  assumes "main read_csv netloc md5_hexdigest word_tokenize stop_words filename = Inr out"
  shows "\<exists>df0. read_csv filename = Inr df0
           \<and> ''uri'' \<in> set (columns out)
           \<and> column_values ''uri'' out = column_values ''uri'' df0
           \<and> (\<forall>d. d \<notin> set [''newspaper_uid'', ''host'', ''title'', ''uid'', ''body'',
                              ''n_tokens_title'', ''n_tokens_body'']
                 \<longrightarrow> column_values d out = column_values d df0)
           \<and> labels out = map (\<lambda>v. Str (md5_hexdigest (encode (text_of v)))) (column_values ''uri'' df0)
           \<and> column_values ''host'' out
               = map (\<lambda>v. Str (projr (netloc (text_of v)))) (column_values ''uri'' df0)
           \<and> column_values ''title'' out
               = map (\<lambda>(t, u). if t = NaN then Str (slug_title (text_of u)) else t)
                   (zip (column_values ''title'' df0) (column_values ''uri'' df0))"
proof -
  let ?df1 = "\<lambda>df0. add_newspaper_uid_column df0 (takeWhile (\<lambda>c. c \<noteq> CHR ''_'') filename)"
  from main_InrD [OF assms] obtain df0 df2 df3 df4 df5 df6 where
    r: "read_csv filename = Inr df0" and
    s2: "extract_host netloc (?df1 df0) = Inr df2" and
    s3: "fill_nan_data df2 = Inr df3" and
    s4: "generate_uids_for_rows md5_hexdigest df3 = Inr df4" and
    s5: "remove_new_lines_from_body df4 = Inr df5" and
    s6: "tokenize_column word_tokenize stop_words df5 ''title'' = Inr df6" and
    s7: "tokenize_column word_tokenize stop_words df6 ''body'' = Inr out"
    by blast
  have frame: "column_values d out = column_values d df0"
    if "d \<notin> set [''newspaper_uid'', ''host'', ''title'', ''uid'', ''body'',
                    ''n_tokens_title'', ''n_tokens_body'']" for d
  proof -
    from that have d: "d \<noteq> ''newspaper_uid''" "d \<noteq> ''host''" "d \<noteq> ''title''" "d \<noteq> ''uid''"
      "d \<noteq> ''body''" "d \<noteq> ''n_tokens_'' @ ''title''" "d \<noteq> ''n_tokens_'' @ ''body''"
      by simp_all
    have "column_values d out = column_values d df6"
      using s7 d(7) by (rule tokenize_column_frame(2))
    also have "\<dots> = column_values d df5"
      using s6 d(6) by (rule tokenize_column_frame(2))
    also have "\<dots> = column_values d df4"
      using s5 d(5) by (rule remove_new_lines_from_body_frame(2))
    also have "\<dots> = column_values d df3"
      using s4 d(4) by (rule generate_uids_for_rows_frame(2))
    also have "\<dots> = column_values d df2"
      using s3 d(3) by (rule fill_nan_data_frame(2))
    also have "\<dots> = column_values d (?df1 df0)"
      using s2 d(2) by (rule extract_host_frame(2))
    also have "\<dots> = column_values d df0"
      using d(1) by (rule add_newspaper_uid_column_frame(2))
    finally show ?thesis .
  qed
  have uri: "column_values ''uri'' out = column_values ''uri'' df0"
    by (rule frame) simp
  have uri3: "column_values ''uri'' df3 = column_values ''uri'' df0"
  proof -
    have "column_values ''uri'' df3 = column_values ''uri'' df2"
      using s3 by (rule fill_nan_data_frame(2)) simp
    also have "\<dots> = column_values ''uri'' (?df1 df0)"
      using s2 by (rule extract_host_frame(2)) simp
    also have "\<dots> = column_values ''uri'' df0"
      by (rule add_newspaper_uid_column_frame(2)) simp
    finally show ?thesis .
  qed
  have uri1: "column_values ''uri'' (?df1 df0) = column_values ''uri'' df0"
    by (rule add_newspaper_uid_column_frame(2)) simp
  have uri2: "column_values ''uri'' df2 = column_values ''uri'' df0"
    using extract_host_frame(2) [OF s2, of "''uri''"] uri1 by simp
  have title2: "column_values ''title'' df2 = column_values ''title'' df0"
    using extract_host_frame(2) [OF s2, of "''title''"]
      add_newspaper_uid_column_frame(2) [of "''title''" df0] by simp
  have lab: "labels out = map (\<lambda>v. Str (md5_hexdigest (encode (text_of v)))) (column_values ''uri'' df0)"
  proof -
    have "labels out = labels df6" using s7 by (rule tokenize_column_frame(1))
    also have "\<dots> = labels df5" using s6 by (rule tokenize_column_frame(1))
    also have "\<dots> = labels df4" using s5 by (rule remove_new_lines_from_body_frame(1))
    also have "\<dots> = map (\<lambda>v. Str (md5_hexdigest (encode (text_of v)))) (column_values ''uri'' df3)"
      using s4 by (rule generate_uids_for_rows_frame(1))
    finally show ?thesis unfolding uri3 .
  qed
  have host: "column_values ''host'' out
               = map (\<lambda>v. Str (projr (netloc (text_of v)))) (column_values ''uri'' df0)"
  proof -
    have "column_values ''host'' out = column_values ''host'' df6"
      using s7 by (rule tokenize_column_frame(2)) simp
    also have "\<dots> = column_values ''host'' df5"
      using s6 by (rule tokenize_column_frame(2)) simp
    also have "\<dots> = column_values ''host'' df4"
      using s5 by (rule remove_new_lines_from_body_frame(2)) simp
    also have "\<dots> = column_values ''host'' df3"
      using s4 by (rule generate_uids_for_rows_frame(2)) simp
    also have "\<dots> = column_values ''host'' df2"
      using s3 by (rule fill_nan_data_frame(2)) simp
    also have "\<dots> = map (\<lambda>v. Str (projr (netloc (text_of v)))) (column_values ''uri'' (?df1 df0))"
      using s2 by (rule extract_host_frame(3))
    finally show ?thesis unfolding uri1 .
  qed
  have title: "column_values ''title'' out
               = map (\<lambda>(t, u). if t = NaN then Str (slug_title (text_of u)) else t)
                   (zip (column_values ''title'' df0) (column_values ''uri'' df0))"
  proof -
    have "column_values ''title'' out = column_values ''title'' df6"
      using s7 by (rule tokenize_column_frame(2)) simp
    also have "\<dots> = column_values ''title'' df5"
      using s6 by (rule tokenize_column_frame(2)) simp
    also have "\<dots> = column_values ''title'' df4"
      using s5 by (rule remove_new_lines_from_body_frame(2)) simp
    also have "\<dots> = column_values ''title'' df3"
      using s4 by (rule generate_uids_for_rows_frame(2)) simp
    also have "\<dots> = map (\<lambda>(t, u). if t = NaN then Str (slug_title (text_of u)) else t)
                   (zip (column_values ''title'' df2) (column_values ''uri'' df2))"
      using s3 by (rule fill_nan_data_frame(3))
    finally show ?thesis unfolding title2 uri2 .
  qed
  have col: "''uri'' \<in> set (columns out)"
  proof -
    from extract_host_InrD [OF s2] have "''uri'' \<in> set (columns (?df1 df0))" by simp
    then have "''uri'' \<in> set (columns df2)"
      unfolding extract_host_frame(4) [OF s2] by (rule add_column_keeps)
    then have "''uri'' \<in> set (columns df3)"
      unfolding fill_nan_data_frame(4) [OF s3] .
    then have "''uri'' \<in> set (columns df4)"
      unfolding generate_uids_for_rows_frame(3) [OF s4] by simp
    then have "''uri'' \<in> set (columns df5)"
      unfolding remove_new_lines_from_body_frame(4) [OF s5] .
    then have "''uri'' \<in> set (columns df6)"
      unfolding tokenize_column_frame(3) [OF s6] by (rule add_column_keeps)
    then show ?thesis
      unfolding tokenize_column_frame(3) [OF s7] by (rule add_column_keeps)
  qed
  from r col uri frame lab host title show ?thesis by blast
qed

theorem main_keeps_uri_witness:
  "isl (main (\<lambda>filename. Inr example_input) urlparse_netloc hex_digest space_tokenize {''el''}
          ''example_2021.csv'') = False
   \<and> column_values ''uri'' (projr (main (\<lambda>filename. Inr example_input) urlparse_netloc hex_digest
          space_tokenize {''el''} ''example_2021.csv''))
       = [Str ''http://example.com/news/big-story-today'', Str ''http://example.com/news/otra-cosa'']
   \<and> column_values ''date'' (projr (main (\<lambda>filename. Inr example_input) urlparse_netloc hex_digest
          space_tokenize {''el''} ''example_2021.csv''))
       = [Str ''2021-05-01'', NaN]
   \<and> column_values ''host'' (projr (main (\<lambda>filename. Inr example_input) urlparse_netloc hex_digest
          space_tokenize {''el''} ''example_2021.csv''))
       = [Str ''example.com'', Str ''example.com'']
   \<and> column_values ''title'' (projr (main (\<lambda>filename. Inr example_input) urlparse_netloc hex_digest
          space_tokenize {''el''} ''example_2021.csv''))
       = [Str ''big story today'', Str ''el gato'']"
proof -
  obtain out where out: "main (\<lambda>filename. Inr example_input) urlparse_netloc hex_digest space_tokenize
      {''el''} ''example_2021.csv'' = Inr out"
    using main_example_runs
    by (cases "main (\<lambda>filename. Inr example_input) urlparse_netloc hex_digest space_tokenize
      {''el''} ''example_2021.csv''") auto
  from main_keeps_uri [OF out] have
    "column_values ''uri'' out = column_values ''uri'' example_input"
    "column_values ''date'' out = column_values ''date'' example_input"
    "column_values ''host'' out
       = map (\<lambda>v. Str (projr (urlparse_netloc (text_of v)))) (column_values ''uri'' example_input)"
    "column_values ''title'' out
       = map (\<lambda>(t, u). if t = NaN then Str (slug_title (text_of u)) else t)
           (zip (column_values ''title'' example_input) (column_values ''uri'' example_input))"
    by simp_all
  then show ?thesis
    unfolding out
    by (simp add: example_input_def column_values_def netloc_example_com slug_title_example)
       (simp add: urlparse_netloc_def Let_def scheme_char_def)
qed

section \<open>Further properties\<close>

text \<open>
  When \<open>title\<close> and \<open>uri\<close> are columns and the uri column holds a text (or the table has
  no rows), \<^verbatim>\<open>_fill_nan_data\<close> raises AttributeError exactly when some row without a title
  has a uri without a final segment, and returns a table otherwise.
\<close>

theorem fill_nan_data_raises_iff:
  assumes "''title'' \<in> set (columns df)" and "''uri'' \<in> set (columns df)"
    and "str_accessor (column_values ''uri'' df)"
  shows "(fill_nan_data df = Inl AttributeError)
           = list_ex (\<lambda>(l, r). title_missing r \<and> \<not> has_last_segment (r ''uri'')) (entries df)
         \<and> isl (fill_nan_data df)
           = list_ex (\<lambda>(l, r). title_missing r \<and> \<not> has_last_segment (r ''uri'')) (entries df)"
  unfolding fill_nan_data_cases [OF assms]
  by (auto simp: list_ex_iff list_all_iff)

theorem fill_nan_data_raises_iff_witness:
  "isl (fill_nan_data example_trailing_slash) = True \<and> isl (fill_nan_data example_titles) = False"
proof -
  have a: "''title'' \<in> set (columns example_trailing_slash)"
    "''uri'' \<in> set (columns example_trailing_slash)"
    "str_accessor (column_values ''uri'' example_trailing_slash)"
    by (simp_all add: example_trailing_slash_def str_accessor_def column_values_def)
  have b: "''title'' \<in> set (columns example_titles)"
    "''uri'' \<in> set (columns example_titles)"
    "str_accessor (column_values ''uri'' example_titles)"
    by (simp_all add: example_titles_def str_accessor_def column_values_def)
  show ?thesis
    unfolding fill_nan_data_raises_iff [OF a, THEN conjunct2] fill_nan_data_raises_iff [OF b, THEN conjunct2]
    by (simp add: example_trailing_slash_def example_titles_def title_missing_def has_last_segment_def)
qed

text \<open>When \<^verbatim>\<open>_fill_nan_data\<close> returns a table, no title in it is missing.\<close>

theorem fill_nan_data_no_missing_title:
  assumes "fill_nan_data df = Inr df'"
  shows "list_all (\<lambda>(l, r). r ''title'' \<noteq> NaN) (entries df')"
proof -
  note pre = fill_nan_data_InrD [OF assms]
  from assms have df': "df' = df\<lparr>entries :=
                        map (\<lambda>(l, r). (l, if title_missing r
                                            then r(''title'' := Str (slug_title (text_of (r ''uri''))))
                                            else r))
                          (entries df)\<rparr>"
    unfolding fill_nan_data_cases [OF pre] by (auto split: if_splits)
  show ?thesis
    unfolding df' by (auto simp: list_all_iff title_missing_def split: if_splits)
qed

theorem fill_nan_data_no_missing_title_witness:
  "isl (fill_nan_data example_titles) = False
   \<and> list_all (\<lambda>(l, r). r ''title'' \<noteq> NaN) (entries (projr (fill_nan_data example_titles)))"
proof -
  have b: "''title'' \<in> set (columns example_titles)"
    "''uri'' \<in> set (columns example_titles)"
    "str_accessor (column_values ''uri'' example_titles)"
    by (simp_all add: example_titles_def str_accessor_def column_values_def)
  have "isl (fill_nan_data example_titles) = False"
    unfolding fill_nan_data_cases [OF b]
    by (simp add: example_titles_def title_missing_def has_last_segment_def)
  then obtain df' where r: "fill_nan_data example_titles = Inr df'"
    by (cases "fill_nan_data example_titles") auto
  from fill_nan_data_no_missing_title [OF r] r show ?thesis by simp
qed

text \<open>
  When \<^verbatim>\<open>main\<close> returns a table, every row of it has in \<open>newspaper_uid\<close> what stands before
  the first \<open>_\<close> of the file name, and in \<open>body\<close> the body that was read without its
  newline characters.
\<close>

theorem main_newspaper_uid_and_body:
  assumes "main read_csv netloc md5_hexdigest word_tokenize stop_words filename = Inr out"
  shows "\<exists>df0. read_csv filename = Inr df0
           \<and> column_values ''newspaper_uid'' out
               = replicate (length (entries df0)) (Str (takeWhile (\<lambda>c. c \<noteq> CHR ''_'') filename))
           \<and> column_values ''body'' out
               = map (\<lambda>v. Str (filter (\<lambda>c. c \<noteq> newline) (text_of v))) (column_values ''body'' df0)"
proof -
  let ?u = "takeWhile (\<lambda>c. c \<noteq> CHR ''_'') filename"
  from main_InrD [OF assms] obtain df0 df2 df3 df4 df5 df6 where
    r: "read_csv filename = Inr df0" and
    s2: "extract_host netloc (add_newspaper_uid_column df0 ?u) = Inr df2" and
    s3: "fill_nan_data df2 = Inr df3" and
    s4: "generate_uids_for_rows md5_hexdigest df3 = Inr df4" and
    s5: "remove_new_lines_from_body df4 = Inr df5" and
    s6: "tokenize_column word_tokenize stop_words df5 ''title'' = Inr df6" and
    s7: "tokenize_column word_tokenize stop_words df6 ''body'' = Inr out"
    by blast
  have "column_values ''newspaper_uid'' out = column_values ''newspaper_uid'' df6"
    using s7 by (rule tokenize_column_frame(2)) simp
  also have "\<dots> = column_values ''newspaper_uid'' df5"
    using s6 by (rule tokenize_column_frame(2)) simp
  also have "\<dots> = column_values ''newspaper_uid'' df4"
    using s5 by (rule remove_new_lines_from_body_frame(2)) simp
  also have "\<dots> = column_values ''newspaper_uid'' df3"
    using s4 by (rule generate_uids_for_rows_frame(2)) simp
  also have "\<dots> = column_values ''newspaper_uid'' df2"
    using s3 by (rule fill_nan_data_frame(2)) simp
  also have "\<dots> = column_values ''newspaper_uid'' (add_newspaper_uid_column df0 ?u)"
    using s2 by (rule extract_host_frame(2)) simp
  also have "\<dots> = replicate (length (entries df0)) (Str ?u)"
    by (simp add: add_newspaper_uid_column_def setitem_scalar_def column_values_def
          case_prod_unfold comp_def map_replicate_const)
  finally have n: "column_values ''newspaper_uid'' out = replicate (length (entries df0)) (Str ?u)" .
  have "column_values ''body'' df4 = column_values ''body'' df3"
    using s4 by (rule generate_uids_for_rows_frame(2)) simp
  also have "\<dots> = column_values ''body'' df2"
    using s3 by (rule fill_nan_data_frame(2)) simp
  also have "\<dots> = column_values ''body'' (add_newspaper_uid_column df0 ?u)"
    using s2 by (rule extract_host_frame(2)) simp
  also have "\<dots> = column_values ''body'' df0"
    by (rule add_newspaper_uid_column_frame(2)) simp
  finally have b4: "column_values ''body'' df4 = column_values ''body'' df0" .
  have "column_values ''body'' out = column_values ''body'' df6"
    using s7 by (rule tokenize_column_frame(2)) simp
  also have "\<dots> = column_values ''body'' df5"
    using s6 by (rule tokenize_column_frame(2)) simp
  also have "\<dots> = map (\<lambda>v. Str (filter (\<lambda>c. c \<noteq> newline) (text_of v))) (column_values ''body'' df4)"
    using s5 by (rule remove_new_lines_from_body_frame(3))
  finally have b: "column_values ''body'' out
      = map (\<lambda>v. Str (filter (\<lambda>c. c \<noteq> newline) (text_of v))) (column_values ''body'' df0)"
    unfolding b4 .
  from r n b show ?thesis by blast
qed

theorem main_newspaper_uid_and_body_witness:
  "isl (main (\<lambda>filename. Inr example_input) urlparse_netloc hex_digest space_tokenize {''el''}
          ''example_2021.csv'') = False
   \<and> column_values ''newspaper_uid'' (projr (main (\<lambda>filename. Inr example_input) urlparse_netloc
          hex_digest space_tokenize {''el''} ''example_2021.csv''))
       = [Str ''example'', Str ''example'']
   \<and> column_values ''body'' (projr (main (\<lambda>filename. Inr example_input) urlparse_netloc
          hex_digest space_tokenize {''el''} ''example_2021.csv''))
       = [Str ''helloworld'', Str ''el perro ladra'']"
proof -
  obtain out where out: "main (\<lambda>filename. Inr example_input) urlparse_netloc hex_digest space_tokenize
      {''el''} ''example_2021.csv'' = Inr out"
    using main_example_runs
    by (cases "main (\<lambda>filename. Inr example_input) urlparse_netloc hex_digest space_tokenize
      {''el''} ''example_2021.csv''") auto
  from main_newspaper_uid_and_body [OF out] have
    "column_values ''newspaper_uid'' out
       = replicate (length (entries example_input)) (Str (takeWhile (\<lambda>c. c \<noteq> CHR ''_'') ''example_2021.csv''))"
    "column_values ''body'' out
       = map (\<lambda>v. Str (filter (\<lambda>c. c \<noteq> newline) (text_of v))) (column_values ''body'' example_input)"
    by simp_all
  then show ?thesis
    unfolding out by (simp add: example_input_def column_values_def newline_def)
qed

text \<open>
  The example run of \<^verbatim>\<open>main\<close>: the second row has a title and a body and no date, and gets
  neither count.
\<close>

theorem main_example_counts:
  "column_values ''n_tokens_title'' (projr (main (\<lambda>filename. Inr example_input) urlparse_netloc
          hex_digest space_tokenize {''el''} ''example_2021.csv''))
       = [Numeric 3, NaN]
   \<and> column_values ''n_tokens_body'' (projr (main (\<lambda>filename. Inr example_input) urlparse_netloc
          hex_digest space_tokenize {''el''} ''example_2021.csv''))
       = [Numeric 1, NaN]"
  by (simp add: stage_defs example_input_def netloc_example_com
        urlparse_netloc_def Let_def scheme_char_def
        space_tokenize_def isalpha_def isalpha_char_def lower_def lower_char_def
        hex_digest_def hex_digit_def encode_def encode_char_def)

end
